theory Spec2Isabelle
  imports Main "HOL-Library.Sublist"
begin

section \<open>Python strings\<close>

text \<open>
  A Python \<open>str\<close> is modelled as a \<open>string\<close>: a list of 8-bit characters, read as the
  code points 0..255 (ASCII and Latin-1).  The character classes below are Python's
  own on that range: \<open>str.isspace\<close> (which is also what \<open>\s\<close> matches in a \<open>str\<close>
  pattern), the decimal digits matched by \<open>\d\<close>, and the letters changed by
  \<open>str.lower\<close>.
\<close>

definition py_isspace :: "char \<Rightarrow> bool" where
  "py_isspace c =
     (let n = (of_char c :: nat)
      in (9 \<le> n \<and> n \<le> 13) \<or> (28 \<le> n \<and> n \<le> 32) \<or> n = 133 \<or> n = 160)"

definition is_digit :: "char \<Rightarrow> bool" where
  "is_digit c = (48 \<le> (of_char c :: nat) \<and> (of_char c :: nat) \<le> 57)"

definition is_upper :: "char \<Rightarrow> bool" where
  "is_upper c =
     (let n = (of_char c :: nat)
      in (65 \<le> n \<and> n \<le> 90) \<or> (192 \<le> n \<and> n \<le> 222 \<and> n \<noteq> 215))"

text \<open>
  The lower-case form of an upper-case letter of this range is 32 code points above
  it; bit 5 of an upper-case letter is clear, so adding 32 sets that bit.
\<close>

definition lower_char :: "char \<Rightarrow> char" where
  "lower_char c =
     (if is_upper c
      then (case c of Char b0 b1 b2 b3 b4 b5 b6 b7 \<Rightarrow> Char b0 b1 b2 b3 b4 True b6 b7)
      else c)"

definition lower :: "string \<Rightarrow> string" where
  "lower s = map lower_char s"

text \<open>\<open>s.strip()\<close>: white space removed at both ends.\<close>

definition strip :: "string \<Rightarrow> string" where
  "strip s = rev (dropWhile py_isspace (rev (dropWhile py_isspace s)))"

text \<open>\<open>w in s\<close> on strings: \<open>w\<close> occurs in \<open>s\<close> as a contiguous substring.\<close>

fun py_in :: "string \<Rightarrow> string \<Rightarrow> bool" where
  "py_in w [] = (w = [])"
| "py_in w (c # cs) = (prefix w (c # cs) \<or> py_in w cs)"

text \<open>
  \<open>split_at_first w s\<close>: the text before and the text after the first (leftmost)
  occurrence of \<open>w\<close> in \<open>s\<close>.
\<close>

fun split_at_first :: "string \<Rightarrow> string \<Rightarrow> (string \<times> string) option" where
  "split_at_first w [] = (if w = [] then Some ([], []) else None)"
| "split_at_first w (c # cs) =
     (if prefix w (c # cs) then Some ([], drop (length w) (c # cs))
      else map_option (\<lambda>(p, r). (c # p, r)) (split_at_first w cs))"

section \<open>Values and exceptions\<close>

text \<open>
  The exception classes that occur.  \<open>CancelledError\<close>, \<open>KeyboardInterrupt\<close> and
  \<open>SystemExit\<close> derive from \<open>BaseException\<close> only: \<open>except Exception\<close> does not
  catch them.
\<close>

datatype exc_type =
    ValueError | OverflowError | AttributeError | JSONDecodeError
  | Timeout | ConnectionError | OtherException string
  | CancelledError | KeyboardInterrupt | SystemExit

datatype py_exception = PyExc (exc_type: exc_type) (exc_msg: string)

fun is_Exception :: "exc_type \<Rightarrow> bool" where
  "is_Exception CancelledError = False"
| "is_Exception KeyboardInterrupt = False"
| "is_Exception SystemExit = False"
| "is_Exception _ = True"

text \<open>
  A Python \<open>float\<close> (IEEE 754 binary64) that is not a NaN: a sign, and either the
  magnitude \<open>m * 2 ^ e\<close> or infinity.
\<close>

datatype pyfloat = Finite bool nat int | Infinity bool

text \<open>What \<open>json.loads\<close> and \<open>response.json()\<close> produce; an object is a dict.\<close>

datatype json =
    JNull | JBool bool | JInt int | JFloat pyfloat | JStr string
  | JList "json list" | JObj "(string \<times> json) list"

section \<open>Numbers in the model text\<close>

text \<open>
  One match of \<open>-?\d+\.?\d*\<close> at the start of \<open>s\<close>: the matched text and the rest.
  Every quantifier is greedy and nothing that follows can fail, so the match takes the
  minus sign if there is one, all digits, a dot if there is one, and all digits again.
  With no digit after an optional minus there is no match here: giving the minus back
  leaves \<open>\d+\<close> in front of the minus itself.  \<open>opt_char c s\<close> is the greedy \<open>c?\<close>.
\<close>

definition opt_char :: "char \<Rightarrow> string \<Rightarrow> string \<times> string" where
  "opt_char c s = (if s \<noteq> [] \<and> hd s = c then ([c], tl s) else ([], s))"

definition match_number :: "string \<Rightarrow> (string \<times> string) option" where
  "match_number s =
     (let (sgn, s1) = opt_char (CHR ''-'') s;
          ds = takeWhile is_digit s1;
          (dot, s3) = opt_char (CHR ''.'') (dropWhile is_digit s1)
      in if ds = [] then None
         else Some (sgn @ ds @ dot @ takeWhile is_digit s3, dropWhile is_digit s3))"

text \<open>
  \<open>re.findall(r'-?\d+\.?\d*', s)\<close>: the matches from left to right; the scan resumes
  where a match ended, and one character further where nothing matched.
\<close>

function findall_number :: "string \<Rightarrow> string list" where
  "findall_number [] = []"
| "findall_number (c # cs) =
     (case match_number (c # cs) of
        Some (m, r) \<Rightarrow> m # findall_number r
      | None \<Rightarrow> findall_number cs)"
  by pat_completeness auto
termination
proof (relation "measure length")
  fix c :: char and cs x2 m r
  assume a: "match_number (c # cs) = Some x2" "(m, r) = x2"
  define s where "s = c # cs"
  define s1 where "s1 = snd (opt_char (CHR ''-'') s)"
  define s2 where "s2 = dropWhile is_digit s1"
  define s3 where "s3 = snd (opt_char (CHR ''.'') s2)"
  from a have ne: "takeWhile is_digit s1 \<noteq> []" and r: "r = dropWhile is_digit s3"
    by (auto simp: match_number_def Let_def split_beta s_def s1_def s2_def s3_def
          split: if_splits)
  have "length s1 \<le> length s"
    by (simp add: s1_def opt_char_def)
  moreover have "length s2 < length s1"
    using ne by (cases s1) (simp_all add: s2_def le_imp_less_Suc length_dropWhile_le split: if_splits)
  moreover have "length s3 \<le> length s2"
    by (simp add: s3_def opt_char_def)
  moreover have "length r \<le> length s3"
    unfolding r by (rule length_dropWhile_le)
  ultimately show "(r, c # cs) \<in> measure length"
    by (simp add: s_def)
qed simp_all

section \<open>\<open>float\<close> and \<open>int\<close>\<close>

definition digit_val :: "char \<Rightarrow> nat" where
  "digit_val c = of_char c - 48"

definition digits_val :: "string \<Rightarrow> nat" where
  "digits_val s = foldl (\<lambda>a c. 10 * a + digit_val c) 0 s"

text \<open>\<open>bit_length n\<close>: the number of binary digits of \<open>n\<close>.\<close>

fun bit_length :: "nat \<Rightarrow> nat" where
  "bit_length n = (if n = 0 then 0 else Suc (bit_length (n div 2)))"

declare bit_length.simps [simp del]

text \<open>
  \<open>floor_log2 n d\<close>, for positive \<open>n\<close> and \<open>d\<close>: the integer \<open>l\<close> with
  \<open>2 ^ l \<le> n / d < 2 ^ (l + 1)\<close>.  The difference of the bit lengths is \<open>l\<close> or
  \<open>l + 1\<close>; one comparison decides.
\<close>

definition floor_log2 :: "nat \<Rightarrow> nat \<Rightarrow> int" where
  "floor_log2 n d =
     (let l = int (bit_length n) - int (bit_length d)
      in if (if 0 \<le> l then d * 2 ^ nat l \<le> n else d \<le> n * 2 ^ nat (- l)) then l else l - 1)"

text \<open>The integer nearest to \<open>a / b\<close>, a tie going to the even one.\<close>

definition round_half_even :: "nat \<Rightarrow> nat \<Rightarrow> nat" where
  "round_half_even a b =
     (let q = a div b; r = a mod b
      in if 2 * r < b then q
         else if b < 2 * r then q + 1
         else if even q then q else q + 1)"

text \<open>
  \<open>to_double neg n d\<close>: the binary64 value nearest to the rational \<open>n / d\<close> with the
  sign \<open>neg\<close> (round to nearest, ties to even), which is what Python's \<open>float\<close> gives
  for a decimal literal.  The exponent \<open>e\<close> is chosen so that the significand
  \<open>n / (d * 2 ^ e)\<close> has 53 bits, and is not below \<open>-1074\<close> (the subnormal range); a
  significand rounded up to \<open>2 ^ 53\<close> is the next power of two.  A result of
  \<open>2 ^ 1024\<close> or more is beyond the largest finite double and becomes infinity.
\<close>

definition to_double :: "bool \<Rightarrow> nat \<Rightarrow> nat \<Rightarrow> pyfloat" where
  "to_double neg n d =
     (if n = 0 then Finite neg 0 0
      else
        let e = max (floor_log2 n d - 52) (- 1074);
            m = (if 0 \<le> e then round_half_even n (d * 2 ^ nat e)
                 else round_half_even (n * 2 ^ nat (- e)) d)
        in if 0 \<le> e \<and> 2 ^ 1024 \<le> m * 2 ^ nat e then Infinity neg else Finite neg m e)"

text \<open>
  The decimal literals that \<open>float\<close> accepts over the sign, the decimal digits and
  the dot: an optional sign, then digits with an optional dot among them, at least one
  digit in all.  The value of the literal is the fraction \<open>n / d\<close> with the sign
  \<open>neg\<close>, \<open>d\<close> being a power of ten.
\<close>

definition parse_decimal :: "string \<Rightarrow> (bool \<times> nat \<times> nat) option" where
  "parse_decimal s =
     (let (sgn, s1) = (if s \<noteq> [] \<and> hd s = CHR ''+'' then ([], tl s) else opt_char (CHR ''-'') s);
          ip = takeWhile is_digit s1;
          (dot, s2) = opt_char (CHR ''.'') (dropWhile is_digit s1);
          fp = takeWhile is_digit s2
      in if dropWhile is_digit s2 \<noteq> [] \<or> (ip = [] \<and> fp = []) then None
         else Some (sgn \<noteq> [], digits_val (ip @ fp), 10 ^ length fp))"

text \<open>
  \<open>float(s)\<close> for a string over the sign, the decimal digits and the dot, which is
  the alphabet of the matches of \<open>findall_number\<close>: the double nearest to the literal;
  anything else over that alphabet raises \<open>ValueError\<close>.  The further forms Python's
  \<open>float\<close> accepts (white space around the number, an exponent, underscores,
  \<open>inf\<close>, \<open>nan\<close>) need other characters and are not part of the model.
\<close>

definition py_float :: "string \<Rightarrow> py_exception + pyfloat" where
  "py_float s =
     (case parse_decimal s of
        None \<Rightarrow> Inl (PyExc ValueError (''could not convert string to float: '' @ s))
      | Some (neg, n, d) \<Rightarrow> Inr (to_double neg n d))"

text \<open>
  \<open>int(x)\<close> for a float \<open>x\<close>: the value truncated toward zero; an infinity raises
  \<open>OverflowError\<close>.
\<close>

fun py_int :: "pyfloat \<Rightarrow> py_exception + int" where
  "py_int (Finite neg m e) =
     Inr ((if neg then - 1 else 1) * int (if 0 \<le> e then m * 2 ^ nat e else m div 2 ^ nat (- e)))"
| "py_int (Infinity neg) =
     Inl (PyExc OverflowError ''cannot convert float infinity to integer'')"

section \<open>The answer parser (\<open>QuizSolver.parse_answer\<close>)\<close>

datatype answer = ABool bool | AInt int | AJson json | AStr string

definition bool_words :: "string list" where
  "bool_words = [''true'', ''false'', ''yes'', ''no'']"

definition number_words :: "string list" where
  "number_words = [''sum'', ''total'', ''count'', ''number'', ''calculate'', ''value'']"

text \<open>\<open>any(word in instruction.lower() for word in words)\<close>\<close>

definition any_word_in :: "string list \<Rightarrow> string \<Rightarrow> bool" where
  "any_word_in ws instruction = list_ex (\<lambda>word. py_in word (lower instruction)) ws"

text \<open>
  \<open>except ValueError\<close> catches \<open>ValueError\<close> and its subclasses, of which
  \<open>json.JSONDecodeError\<close> is one.
\<close>

definition is_ValueError :: "exc_type \<Rightarrow> bool" where
  "is_ValueError t = (t = ValueError \<or> t = JSONDecodeError)"

text \<open>
  The number rule on the stripped response: \<open>None\<close> when control falls through to the
  rules after it, otherwise what \<open>parse_answer\<close> returns or raises.
\<close>

definition number_rule :: "string \<Rightarrow> string \<Rightarrow> (py_exception + answer) option" where
  "number_rule response instruction =
     (if any_word_in number_words instruction then
        (let numbers = findall_number response
         in if numbers \<noteq> [] then
              (case py_float (last numbers) of
                 Inl e \<Rightarrow> if is_ValueError (exc_type e) then None else Some (Inl e)
               | Inr x \<Rightarrow>
                   (case py_int x of
                      Inl e \<Rightarrow> if is_ValueError (exc_type e) then None else Some (Inl e)
                    | Inr n \<Rightarrow> Some (Inr (AInt n))))
            else None)
      else None)"

text \<open>
  The rules after the number rule.  \<open>json.loads\<close> is a parameter: it returns the
  decoded value or raises; only \<open>JSONDecodeError\<close> is caught.
\<close>

definition later_rules :: "(string \<Rightarrow> py_exception + json) \<Rightarrow> string \<Rightarrow> py_exception + answer" where
  "later_rules json_loads response =
     (case (if py_in ''{'' response \<and> py_in ''}'' response
            then (case json_loads response of
                    Inr v \<Rightarrow> Some (Inr (AJson v))
                  | Inl e \<Rightarrow> if exc_type e = JSONDecodeError then None else Some (Inl e))
            else None) of
        Some r \<Rightarrow> r
      | None \<Rightarrow>
          if prefix ''data:'' response \<and> py_in '';'' response then Inr (AStr response)
          else Inr (AStr response))"

definition parse_answer ::
  "(string \<Rightarrow> py_exception + json) \<Rightarrow> string \<Rightarrow> string \<Rightarrow> py_exception + answer" where
  "parse_answer json_loads response0 instruction =
     (let response = strip response0
      in if any_word_in bool_words instruction
         then Inr (ABool (lower response \<in> set [''true'', ''yes'', ''1'']))
         else (case number_rule response instruction of
                 Some r \<Rightarrow> r
               | None \<Rightarrow> later_rules json_loads response))"

text \<open>A \<open>json.loads\<close> that rejects every text, for evaluating the parser on examples.\<close>

definition no_json :: "string \<Rightarrow> py_exception + json" where
  "no_json s = Inl (PyExc JSONDecodeError ''Expecting value'')"

section \<open>The instruction extractor (\<open>main.py\<close>)\<close>

text \<open>
  \<open>re.search(r'<div[^>]*id="result"[^>]*>(.*?)</div>', html, re.DOTALL)\<close>, first a
  match at the start of \<open>s\<close>, giving group 1.  Neither \<open>[^>]*\<close> nor the literal
  \<open>id="result"\<close> can cross a \<open>>\<close>, so the tag ends at the first \<open>>\<close> after
  \<open><div\<close> and the literal has to occur before it; the lazy group then ends at the
  first \<open></div>\<close>.
\<close>

definition match_result_div :: "string \<Rightarrow> string option" where
  "match_result_div s =
     (if prefix ''<div'' s then
        (case split_at_first ''>'' (drop 4 s) of
           None \<Rightarrow> None
         | Some (tag, body) \<Rightarrow>
             if py_in (''id='' @ [CHR 0x22] @ ''result'' @ [CHR 0x22]) tag
             then map_option fst (split_at_first ''</div>'' body)
             else None)
      else None)"

text \<open>The search: the leftmost position with a match.\<close>

fun search_result_div :: "string \<Rightarrow> string option" where
  "search_result_div [] = None"
| "search_result_div (c # cs) =
     (case match_result_div (c # cs) of
        Some g \<Rightarrow> Some g
      | None \<Rightarrow> search_result_div cs)"

text \<open>
  \<open>re.sub(r'<[^>]+>', '', content)\<close>.  A match at the start of \<open>s\<close> is \<open><\<close>, at
  least one character other than \<open>>\<close>, and \<open>>\<close>; \<open>match_tag\<close> gives the text after
  it.
\<close>

definition match_tag :: "string \<Rightarrow> string option" where
  "match_tag s =
     (case s of
        [] \<Rightarrow> None
      | c # cs \<Rightarrow>
          if c = CHR ''<'' then
            (case split_at_first ''>'' cs of
               None \<Rightarrow> None
             | Some (inner, rest) \<Rightarrow> if inner = [] then None else Some rest)
          else None)"

function remove_tags :: "string \<Rightarrow> string" where
  "remove_tags [] = []"
| "remove_tags (c # cs) =
     (case match_tag (c # cs) of
        Some rest \<Rightarrow> remove_tags rest
      | None \<Rightarrow> c # remove_tags cs)"
  by pat_completeness auto
termination
proof (relation "measure length")
  fix c :: char and cs rest
  assume a: "match_tag (c # cs) = Some rest"
  have sp: "split_at_first w xs = Some (u, v) \<Longrightarrow> length v \<le> length xs" for w xs u v
    by (induction xs arbitrary: u) (auto split: if_splits)
  from a obtain inner where "split_at_first ''>'' cs = Some (inner, rest)"
    by (auto simp: match_tag_def split: if_splits option.splits)
  from sp[OF this] show "(rest, c # cs) \<in> measure length"
    by simp
qed simp_all

definition extract_quiz_instruction :: "string \<Rightarrow> string" where
  "extract_quiz_instruction html =
     (case search_result_div html of
        Some content \<Rightarrow> strip (remove_tags content)
      | None \<Rightarrow> [])"

text \<open>
  The submit URL.  \<open>url_char\<close> is the class \<open>[^\s"'<>]\<close>; \<open>match_scheme\<close> is
  \<open>https?://\<close> at the start of \<open>s\<close>: the matched text and the rest.
\<close>

definition url_char :: "char \<Rightarrow> bool" where
  "url_char c =
     (\<not> py_isspace c \<and> c \<noteq> CHR 0x22 \<and> c \<noteq> CHR 0x27 \<and> c \<noteq> CHR ''<'' \<and> c \<noteq> CHR ''>'')"

definition match_scheme :: "string \<Rightarrow> (string \<times> string) option" where
  "match_scheme s =
     (if prefix ''https://'' s then Some (''https://'', drop 8 s)
      else if prefix ''http://'' s then Some (''http://'', drop 7 s)
      else None)"

text \<open>
  \<open>https?://[^\s"'<>]+\<close> followed by a literal \<open>ending\<close>, matched at the start of
  \<open>s\<close>.  The greedy class first takes the whole run of class characters and gives
  characters back one at a time, keeping at least one, until the ending follows: the
  match ends with the last occurrence of the ending that begins inside the run.
\<close>

definition match_url_ending :: "string \<Rightarrow> string \<Rightarrow> string option" where
  "match_url_ending ending s =
     (case match_scheme s of
        None \<Rightarrow> None
      | Some (scheme, r) \<Rightarrow>
          (case find (\<lambda>k. prefix ending (drop k r))
                  (rev [1..<Suc (length (takeWhile url_char r))]) of
             None \<Rightarrow> None
           | Some k \<Rightarrow> Some (scheme @ take k r @ ending)))"

fun search_url_ending :: "string \<Rightarrow> string \<Rightarrow> string option" where
  "search_url_ending ending [] = None"
| "search_url_ending ending (c # cs) =
     (case match_url_ending ending (c # cs) of
        Some m \<Rightarrow> Some m
      | None \<Rightarrow> search_url_ending ending cs)"

text \<open>
  \<open>"url":\s*"(https?://[^"]+)"\<close> matched at the start of \<open>s\<close>; the whole match
  (group 0).  After the key and the white space a quote has to follow; the URL runs
  to the next quote, which has to exist, and is not empty after the scheme.
\<close>

definition url_key :: string where
  "url_key = [CHR 0x22] @ ''url'' @ [CHR 0x22] @ '':''"

definition match_url_key :: "string \<Rightarrow> string option" where
  "match_url_key s =
     (if prefix url_key s then
        (let r = drop (length url_key) s;
             ws = takeWhile py_isspace r
         in case dropWhile py_isspace r of
              [] \<Rightarrow> None
            | q # r2 \<Rightarrow>
                if q \<noteq> CHR 0x22 then None
                else
                  (case match_scheme r2 of
                     None \<Rightarrow> None
                   | Some (scheme, r3) \<Rightarrow>
                       (let body = takeWhile (\<lambda>c. c \<noteq> CHR 0x22) r3
                        in if body \<noteq> [] \<and> dropWhile (\<lambda>c. c \<noteq> CHR 0x22) r3 \<noteq> []
                           then Some (url_key @ ws @ [q] @ scheme @ body @ [CHR 0x22])
                           else None)))
      else None)"

fun search_url_key :: "string \<Rightarrow> string option" where
  "search_url_key [] = None"
| "search_url_key (c # cs) =
     (case match_url_key (c # cs) of
        Some m \<Rightarrow> Some m
      | None \<Rightarrow> search_url_key cs)"

text \<open>
  \<open>extract_submit_url\<close>: the three patterns in order; of the first that matches,
  \<open>match.group(0).replace('"', '')\<close>.
\<close>

definition extract_submit_url :: "string \<Rightarrow> string option" where
  "extract_submit_url html =
     (case (case search_url_ending ''/submit'' html of
              Some m \<Rightarrow> Some m
            | None \<Rightarrow>
                (case search_url_ending ''/api/submit'' html of
                   Some m \<Rightarrow> Some m
                 | None \<Rightarrow> search_url_key html)) of
        Some m \<Rightarrow> Some (filter (\<lambda>c. c \<noteq> CHR 0x22) m)
      | None \<Rightarrow> None)"

section \<open>The submission client (\<open>submit_answer\<close>)\<close>

text \<open>
  The JSON body that is posted (the keys \<open>email\<close>, \<open>secret\<close>, \<open>url\<close> and
  \<open>answer\<close>), and what the network does with it: \<open>requests.post\<close>
  raises (a timeout, a connection error), or a response arrives whose \<open>.json()\<close>
  raises (the body is not JSON) or returns the decoded value.
\<close>

record payload =
  p_email :: string
  p_secret :: string
  p_url :: json
  p_answer :: answer

datatype post_result = PostRaises py_exception | Responded "py_exception + json"

text \<open>
  \<open>submit_answer\<close>, with the network as the parameter \<open>post\<close>.  The result is the
  returned verdict, or \<open>Inl\<close> an exception that \<open>except Exception\<close> does not catch.
\<close>

definition submit_answer ::
  "(string \<Rightarrow> payload \<Rightarrow> post_result) \<Rightarrow> string \<Rightarrow> string \<Rightarrow> string \<Rightarrow> json \<Rightarrow> answer
     \<Rightarrow> py_exception + json" where
  "submit_answer post submit_url email secret quiz_url answer =
     (let payload = \<lparr>p_email = email, p_secret = secret, p_url = quiz_url, p_answer = answer\<rparr>
      in case (case post submit_url payload of
                 PostRaises e \<Rightarrow> Inl e
               | Responded body \<Rightarrow> body) of
           Inr verdict \<Rightarrow> Inr verdict
         | Inl e \<Rightarrow>
             if is_Exception (exc_type e)
             then Inr (JObj [(''correct'', JBool False), (''reason'', JStr (exc_msg e))])
             else Inl e)"

section \<open>The quiz chain driver (\<open>process_quiz_chain\<close>)\<close>

datatype status = Processing | Completed | Failed

text \<open>
  The \<open>result\<close> entry of a task: \<open>None\<close>, the success dict, or \<open>{"error": v}\<close>.
\<close>

datatype task_result = NoResult | Success | Error json

text \<open>
  The log lines, one constructor for each \<open>log(...)\<close> call of the driver, with the
  values that the message interpolates.  The time stamp in front of each line is left
  out.
\<close>

datatype log_line =
    LogStarting string
  | LogExceeded json
  | LogProcessing json nat
  | LogFetching
  | LogInstruction string
  | LogNoSubmitUrl json
  | LogSolving
  | LogSolution string
  | LogParsed answer
  | LogSubmitting
  | LogSubmissionResult json
  | LogCorrect
  | LogCompleted
  | LogMoving json
  | LogNoNextUrl json
  | LogError py_exception
  | LogMaxAttempts

text \<open>
  The entry \<open>quiz_results[task_id]\<close> together with the local variable
  \<open>current_url\<close>.
\<close>

record driver_state =
  status :: status
  logs :: "log_line list"
  result :: task_result
  current_url :: json

definition log :: "log_line \<Rightarrow> driver_state \<Rightarrow> driver_state" where
  "log line st = st\<lparr>logs := logs st @ [line]\<rparr>"

definition fail :: "json \<Rightarrow> driver_state \<Rightarrow> driver_state" where
  "fail reason st = st\<lparr>status := Failed, result := Error reason\<rparr>"

text \<open>
  What one iteration of the loop meets outside the program: the time elapsed since
  \<open>attempt_start\<close> at the check, in microseconds; the page renderer; the language
  model call inside \<open>analyze_data\<close>; the network.
\<close>

record world =
  elapsed :: int
  fetch_quiz_page :: "json \<Rightarrow> py_exception + string"
  create_message :: "string \<Rightarrow> py_exception + string"
  requests_post :: "string \<Rightarrow> payload \<Rightarrow> post_result"

definition max_attempts :: nat where
  "max_attempts = 10"

text \<open>\<open>timedelta(minutes=3)\<close> in microseconds.\<close>

definition time_budget :: int where
  "time_budget = 180000000"

text \<open>Python's truth value of a decoded JSON value, and of the result of \<open>dict.get\<close>.\<close>

fun truthy :: "json \<Rightarrow> bool" where
  "truthy JNull = False"
| "truthy (JBool b) = b"
| "truthy (JInt n) = (n \<noteq> 0)"
| "truthy (JFloat (Finite neg m e)) = (m \<noteq> 0)"
| "truthy (JFloat (Infinity neg)) = True"
| "truthy (JStr s) = (s \<noteq> [])"
| "truthy (JList xs) = (xs \<noteq> [])"
| "truthy (JObj kvs) = (kvs \<noteq> [])"

text \<open>\<open>d.get(k)\<close> with \<open>None\<close> as \<open>JNull\<close>, and \<open>d.get(k, default)\<close>.\<close>

definition get :: "(string \<times> json) list \<Rightarrow> string \<Rightarrow> json" where
  "get d k = (case map_of d k of None \<Rightarrow> JNull | Some v \<Rightarrow> v)"

definition get_default :: "(string \<times> json) list \<Rightarrow> string \<Rightarrow> json \<Rightarrow> json" where
  "get_default d k v0 = (case map_of d k of None \<Rightarrow> v0 | Some v \<Rightarrow> v)"

fun type_name :: "json \<Rightarrow> string" where
  "type_name JNull = ''NoneType''"
| "type_name (JBool b) = ''bool''"
| "type_name (JInt n) = ''int''"
| "type_name (JFloat x) = ''float''"
| "type_name (JStr s) = ''str''"
| "type_name (JList xs) = ''list''"
| "type_name (JObj kvs) = ''dict''"

text \<open>
  \<open>solve_quiz\<close>: \<open>analyze_data\<close> returns the model text, or the empty string when the
  call raised an \<open>Exception\<close>.
\<close>

definition solve_quiz :: "(string \<Rightarrow> py_exception + string) \<Rightarrow> string \<Rightarrow> py_exception + string" where
  "solve_quiz ask instruction =
     (case ask instruction of
        Inr text \<Rightarrow> Inr text
      | Inl e \<Rightarrow> if is_Exception (exc_type e) then Inr [] else Inl e)"

text \<open>How control leaves a loop iteration.\<close>

datatype control = Continue | Break | Raise py_exception

text \<open>
  The inspection of the verdict (the statements after \<open>Submission result\<close> is logged).
  \<open>result.get\<close> on a value that is not a dict raises \<open>AttributeError\<close>.
\<close>

definition inspect_verdict :: "json \<Rightarrow> driver_state \<Rightarrow> (py_exception + control) \<times> driver_state" where
  "inspect_verdict verdict st =
     (case verdict of
        JObj d \<Rightarrow>
          if truthy (get d ''correct'') then
            (let st1 = (log LogCorrect st)\<lparr>current_url := get d ''url''\<rparr>
             in if \<not> truthy (current_url st1)
                then (Inr Break,
                      (log LogCompleted st1)\<lparr>status := Completed, result := Success\<rparr>)
                else (Inr Continue, st1))
          else
            (let next_url = get d ''url''
             in if truthy next_url
                then (Inr Continue, (log (LogMoving next_url) st)\<lparr>current_url := next_url\<rparr>)
                else
                  (let reason = get_default d ''reason'' (JStr ''Unknown error'')
                   in (Inr Break, fail reason (log (LogNoNextUrl reason) st))))
      | _ \<Rightarrow>
          (Inl (PyExc AttributeError
                  ([CHR 0x27] @ type_name verdict @ [CHR 0x27] @ '' object has no attribute ''
                   @ [CHR 0x27] @ ''get'' @ [CHR 0x27])),
           st))"

text \<open>
  The body of the \<open>try\<close> statement, in two parts; \<open>Inl e\<close> when the exception
  \<open>e\<close> leaves it, with the state as it is at that point.  First the part after a
  submit URL was found: the model is asked, its text parsed, the answer submitted and
  the verdict inspected.
\<close>

definition answer_and_submit ::
  "(string \<Rightarrow> py_exception + json) \<Rightarrow> string \<Rightarrow> string \<Rightarrow> world \<Rightarrow> string \<Rightarrow> string
     \<Rightarrow> driver_state \<Rightarrow> (py_exception + control) \<times> driver_state" where
  "answer_and_submit json_loads email secret w instruction submit_url st =
     (let st1 = log LogSolving st
      in case solve_quiz (create_message w) instruction of
           Inl e \<Rightarrow> (Inl e, st1)
         | Inr solution \<Rightarrow>
             (let st2 = log (LogSolution (take 100 solution)) st1
              in case parse_answer json_loads solution instruction of
                   Inl e \<Rightarrow> (Inl e, st2)
                 | Inr answer \<Rightarrow>
                     (let st3 = log LogSubmitting (log (LogParsed answer) st2)
                      in case submit_answer (requests_post w) submit_url email secret
                                (current_url st3) answer of
                           Inl e \<Rightarrow> (Inl e, st3)
                         | Inr verdict \<Rightarrow>
                             inspect_verdict verdict (log (LogSubmissionResult verdict) st3))))"

text \<open>
  The state in which the iteration stops when \<open>not submit_url\<close> holds (no URL, or
  an empty one).
\<close>

definition no_submit_url :: "driver_state \<Rightarrow> driver_state" where
  "no_submit_url st =
     fail (JStr ''Could not find submit URL'') (log (LogNoSubmitUrl (current_url st)) st)"

definition attempt ::
  "(string \<Rightarrow> py_exception + json) \<Rightarrow> string \<Rightarrow> string \<Rightarrow> world \<Rightarrow> driver_state
     \<Rightarrow> (py_exception + control) \<times> driver_state" where
  "attempt json_loads email secret w st =
     (let st1 = log LogFetching st
      in case fetch_quiz_page w (current_url st1) of
           Inl e \<Rightarrow> (Inl e, st1)
         | Inr html \<Rightarrow>
             (let instruction = extract_quiz_instruction html;
                  st2 = log (LogInstruction (take 100 instruction)) st1
              in case extract_submit_url html of
                   None \<Rightarrow> (Inr Break, no_submit_url st2)
                 | Some submit_url \<Rightarrow>
                     if submit_url = [] then (Inr Break, no_submit_url st2)
                     else answer_and_submit json_loads email secret w instruction submit_url st2))"

text \<open>
  One iteration of the \<open>while\<close> loop, \<open>n\<close> being \<open>attempt_count\<close> after its
  increment: the time check, the \<open>try\<close> statement, and the handler of \<open>Exception\<close>.
\<close>

definition iteration ::
  "(string \<Rightarrow> py_exception + json) \<Rightarrow> string \<Rightarrow> string \<Rightarrow> world \<Rightarrow> nat \<Rightarrow> driver_state
     \<Rightarrow> control \<times> driver_state" where
  "iteration json_loads email secret w n st =
     (if elapsed w > time_budget
      then (Break, fail (JStr ''Time limit exceeded'') (log (LogExceeded (current_url st)) st))
      else
        (case attempt json_loads email secret w (log (LogProcessing (current_url st) n) st) of
           (Inr c, st') \<Rightarrow> (c, st')
         | (Inl e, st') \<Rightarrow>
             if is_Exception (exc_type e)
             then (Break,
                   fail (JStr (if exc_msg e \<noteq> [] then exc_msg e else ''Unknown error occurred''))
                     (log (LogError e) st'))
             else (Raise e, st')))"

text \<open>
  The \<open>while\<close> loop from the state in which \<open>attempt_count\<close> is \<open>n\<close>; \<open>ws k\<close> is
  the world of the iteration that follows \<open>attempt_count = k\<close>.  The result is the
  exception that left the loop, if any, the final \<open>attempt_count\<close>, and the state.
\<close>

function run_loop ::
  "(string \<Rightarrow> py_exception + json) \<Rightarrow> string \<Rightarrow> string \<Rightarrow> (nat \<Rightarrow> world) \<Rightarrow> nat \<Rightarrow> driver_state
     \<Rightarrow> py_exception option \<times> nat \<times> driver_state" where
  "run_loop json_loads email secret ws n st =
     (if truthy (current_url st) \<and> n < max_attempts then
        (case iteration json_loads email secret (ws n) (Suc n) st of
           (Continue, st') \<Rightarrow> run_loop json_loads email secret ws (Suc n) st'
         | (Break, st') \<Rightarrow> (None, Suc n, st')
         | (Raise e, st') \<Rightarrow> (Some e, Suc n, st'))
      else (None, n, st))"
  by pat_completeness auto
termination
  by (relation "measure (\<lambda>(json_loads, email, secret, ws, n, st). max_attempts - n)") auto

declare run_loop.simps [simp del]

text \<open>The statement after the loop.\<close>

definition after_loop :: "nat \<Rightarrow> driver_state \<Rightarrow> driver_state" where
  "after_loop n st =
     (if n \<ge> max_attempts
      then fail (JStr ''Max attempts reached'') (log LogMaxAttempts st)
      else st)"

definition initial_state :: "string \<Rightarrow> driver_state" where
  "initial_state initial_url =
     log (LogStarting initial_url)
       \<lparr>status = Processing, logs = [], result = NoResult, current_url = JStr initial_url\<rparr>"

text \<open>
  \<open>process_quiz_chain\<close>: the exception that left it, if any, and the task's entry
  when it ends.
\<close>

definition process_quiz_chain ::
  "(string \<Rightarrow> py_exception + json) \<Rightarrow> (nat \<Rightarrow> world) \<Rightarrow> string \<Rightarrow> string \<Rightarrow> string
     \<Rightarrow> py_exception option \<times> driver_state" where
  "process_quiz_chain json_loads ws email secret initial_url =
     (case run_loop json_loads email secret ws 0 (initial_state initial_url) of
        (Some e, n, st) \<Rightarrow> (Some e, st)
      | (None, n, st) \<Rightarrow> (None, after_loop n st))"

section \<open>Words of the specification, and inputs for the examples\<close>

text \<open>
  ``Case-insensitively equals'', as the specification says it of the trimmed model
  text.
\<close>

definition ci_equal :: "string \<Rightarrow> string \<Rightarrow> bool" where
  "ci_equal a b = (lower a = lower b)"

text \<open>The numeral \<open>2 * 10 ^ 308\<close>, which is larger than every finite double.\<close>

definition huge_number :: string where
  "huge_number = ''200000000000000000000000000000000000000000000000000000000000000000000000000000000000000000000000000000000000000000000000000000000000000000000000000000000000000000000000000000000000000000000000000000000000000000000000000000000000000000000000000000000000000000000000000000000000000000000000000000000000000000000''"

text \<open>A page whose only URL is the value of a \<open>"url"\<close> key.\<close>

definition page_with_url_key :: string where
  \<open>page_with_url_key = ''{"url": "https://example.com/post"}''\<close>

text \<open>
  A quiz page with an instruction and a submit URL, and one with the instruction only.
\<close>

definition quiz_page :: string where
  \<open>quiz_page = ''<div id="result">What is the total?</div> https://q.io/submit''\<close>

definition page_without_url :: string where
  \<open>page_without_url = ''<div id="result">What is the total?</div>''\<close>

text \<open>
  Worlds for single iterations: the page is \<open>page\<close>, the model answers
  \<open>The total is 37\<close>, and the network behaves as \<open>outcome\<close>; the time check happens one
  second after the start.
\<close>

definition world_of :: "string \<Rightarrow> post_result \<Rightarrow> world" where
  "world_of page outcome =
     \<lparr>elapsed = 1000000,
      fetch_quiz_page = (\<lambda>u. Inr page),
      create_message = (\<lambda>instruction. Inr ''The total is 37''),
      requests_post = (\<lambda>submit_url payload. outcome)\<rparr>"

definition verdict_next :: json where
  "verdict_next = JObj [(''correct'', JBool True), (''url'', JStr ''https://q.io/next'')]"

definition verdict_done :: json where
  "verdict_done = JObj [(''correct'', JBool True)]"

definition verdict_wrong :: json where
  "verdict_wrong = JObj [(''correct'', JBool False), (''reason'', JStr ''Wrong answer'')]"

definition verdict_wrong_next :: json where
  "verdict_wrong_next = JObj [(''correct'', JBool False), (''url'', JStr ''https://q.io/retry'')]"

text \<open>
  A chain of ten quizzes: the first nine verdicts are correct and name a next URL, the
  tenth is correct and names none.
\<close>

definition ten_quizzes :: "nat \<Rightarrow> world" where
  "ten_quizzes k =
     (if k < 9 then world_of quiz_page (Responded (Inr verdict_next))
      else world_of quiz_page (Responded (Inr verdict_done)))"

text \<open>A world in which the time check happens after the three minutes.\<close>

definition late_world :: world where
  "late_world = (world_of quiz_page (Responded (Inr verdict_done)))\<lparr>elapsed := 180000001\<rparr>"

definition always_late :: "nat \<Rightarrow> world" where
  "always_late k = late_world"

text \<open>Worlds in which every page lacks a submit URL, and in which every verdict is the same.\<close>

definition no_url_chain :: "nat \<Rightarrow> world" where
  "no_url_chain k = world_of page_without_url (Responded (Inr verdict_done))"

definition chain_of :: "post_result \<Rightarrow> nat \<Rightarrow> world" where
  "chain_of outcome k = world_of quiz_page outcome"

text \<open>
  The state of the driver when it starts to inspect a verdict in the iteration with
  \<open>attempt_count = n\<close> that began in the state \<open>st\<close>: the log lines of the steps up to the
  submission have been added.
\<close>

definition after_submission ::
  "driver_state \<Rightarrow> nat \<Rightarrow> string \<Rightarrow> string \<Rightarrow> answer \<Rightarrow> json \<Rightarrow> driver_state" where
  "after_submission st n instruction solution ans verdict =
     st\<lparr>logs := logs st @
            [LogProcessing (current_url st) n, LogFetching, LogInstruction (take 100 instruction),
             LogSolving, LogSolution (take 100 solution), LogParsed ans, LogSubmitting,
             LogSubmissionResult verdict]\<rparr>"

text \<open>
  The number of log lines that begin an iteration of the loop: every iteration logs
  first either that the time limit is exceeded or that it is processing a quiz.
\<close>

fun starts_iteration :: "log_line \<Rightarrow> bool" where
  "starts_iteration (LogExceeded u) = True"
| "starts_iteration (LogProcessing u n) = True"
| "starts_iteration _ = False"

definition iteration_starts :: "log_line list \<Rightarrow> nat" where
  "iteration_starts ls = length (filter starts_iteration ls)"

text \<open>
  Chains whose first nine verdicts are correct and name a next URL, and whose tenth
  iteration meets a page without a submit URL, a late time check, or a verdict that is
  incorrect, has a reason and names no next URL.
\<close>

definition tenth_without_url :: "nat \<Rightarrow> world" where
  "tenth_without_url k =
     (if k < 9 then world_of quiz_page (Responded (Inr verdict_next))
      else world_of page_without_url (Responded (Inr verdict_done)))"

definition tenth_late :: "nat \<Rightarrow> world" where
  "tenth_late k =
     (if k < 9 then world_of quiz_page (Responded (Inr verdict_next)) else late_world)"

definition tenth_wrong :: "nat \<Rightarrow> world" where
  "tenth_wrong k =
     (if k < 9 then world_of quiz_page (Responded (Inr verdict_next))
      else world_of quiz_page (Responded (Inr verdict_wrong)))"

section \<open>Substrings and keywords\<close>

lemma py_in_iff: "py_in w s \<longleftrightarrow> (\<exists>p q. s = p @ w @ q)"
proof (induction s)
  case Nil
  then show ?case by auto
next
  case (Cons c cs)
  show ?case
  proof
    assume "py_in w (c # cs)"
    then consider "prefix w (c # cs)" | "py_in w cs" by auto
    then show "\<exists>p q. c # cs = p @ w @ q"
    proof cases
      case 1
      then obtain q where "c # cs = w @ q" by (auto simp: prefix_def)
      then have "c # cs = [] @ w @ q" by simp
      then show ?thesis by blast
    next
      case 2
      with Cons.IH obtain p q where "cs = p @ w @ q" by blast
      then have "c # cs = (c # p) @ w @ q" by simp
      then show ?thesis by blast
    qed
  next
    assume "\<exists>p q. c # cs = p @ w @ q"
    then obtain p q where pq: "c # cs = p @ w @ q" by blast
    show "py_in w (c # cs)"
    proof (cases p)
      case Nil
      with pq have "prefix w (c # cs)" by (simp add: prefix_def)
      then show ?thesis by simp
    next
      case (Cons a p')
      with pq have "cs = p' @ w @ q" by simp
      with Cons.IH have "py_in w cs" by blast
      then show ?thesis by simp
    qed
  qed
qed

lemma lower_append: "lower (a @ b) = lower a @ lower b"
  by (simp add: lower_def)

lemma any_word_in_iff:
  "any_word_in ws instruction \<longleftrightarrow> (\<exists>w \<in> set ws. \<exists>p q. lower instruction = p @ w @ q)"
  by (simp add: any_word_in_def list_ex_iff py_in_iff)

lemma py_in_append: "py_in w (p @ w @ q)"
  unfolding py_in_iff by (rule exI[of _ p], rule exI[of _ q], rule refl)
lemma any_word_inI: "w \<in> set ws \<Longrightarrow> lower instruction = p @ w @ q \<Longrightarrow> any_word_in ws instruction"
  unfolding any_word_in_iff by (rule bexI[of _ w], rule exI[of _ p], rule exI[of _ q])

section \<open>The matches of the number pattern are decimal literals\<close>

lemma takeWhile_digits_append:
  assumes "\<forall>c \<in> set ds. is_digit c" and "r = [] \<or> \<not> is_digit (hd r)"
  shows "takeWhile is_digit (ds @ r) = ds" and "dropWhile is_digit (ds @ r) = r"
  using assms by (cases r; simp add: takeWhile_append dropWhile_append)+

lemma is_digit_chars: "\<not> is_digit (CHR ''-'')" "\<not> is_digit (CHR ''.'')" "\<not> is_digit (CHR ''+'')"
  by (simp_all add: is_digit_def)

lemma takeWhile_dropWhile_nil: "takeWhile P (dropWhile P xs) = []"
  by (induction xs) auto

text \<open>The shape of a match: sign, digits, and either nothing or a dot and digits.\<close>

lemma match_number_shape:
  assumes "match_number s = Some (m, r)"
  obtains sgn ds dot fs where "m = sgn @ ds @ dot @ fs"
    and "sgn = [] \<or> sgn = ''-''" and "ds \<noteq> []" and "\<forall>c \<in> set ds. is_digit c"
    and "(dot = [] \<and> fs = []) \<or> dot = ''.''" and "\<forall>c \<in> set fs. is_digit c"
proof -
  define sgn where "sgn = fst (opt_char (CHR ''-'') s)"
  define s1 where "s1 = snd (opt_char (CHR ''-'') s)"
  define ds where "ds = takeWhile is_digit s1"
  define dot where "dot = fst (opt_char (CHR ''.'') (dropWhile is_digit s1))"
  define s3 where "s3 = snd (opt_char (CHR ''.'') (dropWhile is_digit s1))"
  define fs where "fs = takeWhile is_digit s3"
  from assms have ne: "ds \<noteq> []" and m: "m = sgn @ ds @ dot @ fs"
    by (auto simp: match_number_def Let_def split_beta sgn_def s1_def ds_def dot_def s3_def fs_def
          split: if_splits)
  have 1: "sgn = [] \<or> sgn = ''-''"
    by (simp add: sgn_def opt_char_def)
  have 2: "\<forall>c \<in> set ds. is_digit c"
    unfolding ds_def by (auto dest: set_takeWhileD)
  have 3: "(dot = [] \<and> fs = []) \<or> dot = ''.''"
    by (simp add: dot_def fs_def s3_def opt_char_def takeWhile_dropWhile_nil)
  have 4: "\<forall>c \<in> set fs. is_digit c"
    unfolding fs_def by (auto dest: set_takeWhileD)
  from that[OF m 1 ne 2 3 4] show ?thesis .
qed

lemma parse_decimal_shape:
  assumes "sg = [] \<or> sg = ''-''" and "ds \<noteq> []" and "\<forall>c \<in> set ds. is_digit c"
    and "(dot = [] \<and> fs = []) \<or> dot = ''.''" and "\<forall>c \<in> set fs. is_digit c"
  shows "parse_decimal (sg @ ds @ dot @ fs) = Some (sg \<noteq> [], digits_val (ds @ fs), 10 ^ length fs)"
proof -
  from assms(2,3) have hd: "is_digit (hd ds)" by (cases ds) auto
  then have hdne: "hd ds \<noteq> CHR ''-''" "hd ds \<noteq> CHR ''+''"
    using is_digit_chars by auto
  have sign: "(if sg @ ds @ dot @ fs \<noteq> [] \<and> hd (sg @ ds @ dot @ fs) = CHR ''+''
               then ([], tl (sg @ ds @ dot @ fs)) else opt_char (CHR ''-'') (sg @ ds @ dot @ fs))
              = (sg, ds @ dot @ fs)"
    using assms(1,2) hdne by (auto simp: opt_char_def)
  have stop: "dot @ fs = [] \<or> \<not> is_digit (hd (dot @ fs))"
    using assms(4) is_digit_chars by auto
  have tw: "takeWhile is_digit (ds @ dot @ fs) = ds" "dropWhile is_digit (ds @ dot @ fs) = dot @ fs"
    using takeWhile_digits_append[OF assms(3) stop] by simp_all
  have dot: "opt_char (CHR ''.'') (dot @ fs) = (dot, fs)"
    using assms(4) by (auto simp: opt_char_def)
  have fs: "takeWhile is_digit fs = fs" "dropWhile is_digit fs = []"
    using assms(5) by (auto simp: takeWhile_eq_all_conv)
  show ?thesis
    unfolding parse_decimal_def sign using assms(2,5) by (simp add: tw dot fs)
qed

lemma match_number_parses:
  assumes "match_number s = Some (m, r)"
  shows "\<exists>neg n k. parse_decimal m = Some (neg, n, 10 ^ k)"
proof -
  from assms obtain sg ds dot fs where "m = sg @ ds @ dot @ fs"
    and "sg = [] \<or> sg = ''-''" and "ds \<noteq> []" and "\<forall>c \<in> set ds. is_digit c"
    and "(dot = [] \<and> fs = []) \<or> dot = ''.''" and "\<forall>c \<in> set fs. is_digit c"
    by (rule match_number_shape)
  then show ?thesis using parse_decimal_shape by blast
qed

lemma findall_number_matches:
  "m \<in> set (findall_number s) \<Longrightarrow> \<exists>s' r. match_number s' = Some (m, r)"
proof (induction s rule: findall_number.induct)
  case 1
  then show ?case by simp
next
  case (2 c cs)
  show ?case
  proof (cases "match_number (c # cs)")
    case None
    with 2 show ?thesis by simp
  next
    case (Some a)
    obtain m' r' where a: "a = (m', r')" by (cases a)
    with Some 2 show ?thesis by (cases "m = m'") auto
  qed
qed

lemma findall_number_parses:
  "m \<in> set (findall_number s) \<Longrightarrow> \<exists>neg n k. parse_decimal m = Some (neg, n, 10 ^ k)"
  using findall_number_matches match_number_parses by blast

section \<open>Properties of the conversion to a double\<close>

lemma bit_length_upper: "n < 2 ^ bit_length n"
proof (induction n rule: bit_length.induct)
  case (1 n)
  show ?case
  proof (cases "n = 0")
    case True
    then show ?thesis by (simp add: bit_length.simps)
  next
    case False
    with 1 have "n div 2 < 2 ^ bit_length (n div 2)" by simp
    then have "n < 2 * 2 ^ bit_length (n div 2)" by linarith
    with False show ?thesis by (simp add: bit_length.simps[of n])
  qed
qed

lemma bit_length_lower: "0 < n \<Longrightarrow> 2 ^ (bit_length n - 1) \<le> n"
proof (induction n rule: bit_length.induct)
  case (1 n)
  show ?case
  proof (cases "n div 2 = 0")
    case True
    with 1(2) have "n = 1" by linarith
    then show ?thesis by (simp add: bit_length.simps)
  next
    case False
    with 1 have ih: "2 ^ (bit_length (n div 2) - 1) \<le> n div 2" by simp
    from False have pos: "0 < bit_length (n div 2)" by (simp add: bit_length.simps[of "n div 2"])
    have "bit_length n = Suc (bit_length (n div 2))"
      using 1(2) by (simp add: bit_length.simps[of n])
    then have "(2::nat) ^ (bit_length n - 1) = 2 * 2 ^ (bit_length (n div 2) - 1)"
      using pos by (cases "bit_length (n div 2)") simp_all
    also have "\<dots> \<le> 2 * (n div 2)" using ih by simp
    also have "\<dots> \<le> n" by simp
    finally show ?thesis .
  qed
qed

text \<open>\<open>floor_log2\<close> does not exceed the logarithm of the quotient.\<close>

lemma floor_log2_le:
  assumes "0 < n" and "0 < d" and "0 \<le> floor_log2 n d"
  shows "d * 2 ^ nat (floor_log2 n d) \<le> n"
proof -
  define l where "l = int (bit_length n) - int (bit_length d)"
  have fl: "floor_log2 n d =
      (if (if 0 \<le> l then d * 2 ^ nat l \<le> n else d \<le> n * 2 ^ nat (- l)) then l else l - 1)"
    unfolding floor_log2_def l_def Let_def by (rule refl)
  show ?thesis
  proof (cases "if 0 \<le> l then d * 2 ^ nat l \<le> n else d \<le> n * 2 ^ nat (- l)")
    case True
    then have eq: "floor_log2 n d = l" unfolding fl by (rule if_P)
    from assms(3) have "0 \<le> l" by (simp only: eq)
    with True have "d * 2 ^ nat l \<le> n" by simp
    then show ?thesis by (simp only: eq)
  next
    case False
    then have eq: "floor_log2 n d = l - 1" unfolding fl by (rule if_not_P)
    with assms(3) have l1: "1 \<le> l" by simp
    then have bl: "bit_length n = bit_length d + nat (l - 1) + 1"
      unfolding l_def by linarith
    have "d * 2 ^ nat (l - 1) \<le> 2 ^ bit_length d * 2 ^ nat (l - 1)"
      using bit_length_upper[of d] by simp
    also have "\<dots> = 2 ^ (bit_length n - 1)"
      by (simp add: bl power_add)
    also have "\<dots> \<le> n" using assms(1) by (rule bit_length_lower)
    finally show ?thesis by (simp only: eq)
  qed
qed

lemma round_half_even_exact: "0 < b \<Longrightarrow> round_half_even (q * b) b = q"
  by (simp add: round_half_even_def)

text \<open>A whole number of at most 53 bits (and \<open>2 ^ 53\<close> itself) is a double, and
  the conversion to \<open>int\<close> gives it back.\<close>

lemma to_double_whole:
  assumes d: "0 < d" and dvd: "d dvd n" and le: "n div d \<le> 2 ^ 53"
  shows "\<exists>m e. to_double neg n d = Finite neg m e
           \<and> (if 0 \<le> e then m * 2 ^ nat e else m div 2 ^ nat (- e)) = n div d"
proof (cases "n = 0")
  case True
  then show ?thesis by (simp add: to_double_def)
next
  case False
  define N where "N = n div d"
  from dvd have n: "n = N * d" by (simp add: N_def)
  from False n have Npos: "0 < N" by (cases N) auto
  define l where "l = floor_log2 n d"
  define e where "e = max (l - 52) (- 1074)"
  define m where "m = (if 0 \<le> e then round_half_even n (d * 2 ^ nat e)
                 else round_half_even (n * 2 ^ nat (- e)) d)"
  have td: "to_double neg n d = (if 0 \<le> e \<and> 2 ^ 1024 \<le> m * 2 ^ nat e then Infinity neg else Finite neg m e)"
    using False by (simp add: to_double_def Let_def l_def e_def m_def)
  have e1: "e \<le> 1" and e1N: "e = 1 \<Longrightarrow> N = 2 ^ 53"
  proof -
    have *: "53 \<le> l \<Longrightarrow> l = 53 \<and> N = 2 ^ 53"
    proof -
      assume a: "53 \<le> l"
      then have "d * 2 ^ nat l \<le> n"
        unfolding l_def using floor_log2_le[of n d] False d by simp
      then have l2N: "2 ^ nat l \<le> N" using d by (simp add: n mult.commute)
      have "(2::nat) ^ 53 \<le> 2 ^ nat l" using a by (intro power_increasing) auto
      then have "2 ^ 53 \<le> N" using l2N by (rule order_trans)
      moreover from le have N53: "N \<le> 2 ^ 53" unfolding N_def .
      ultimately have N: "N = 2 ^ 53" by (simp only: order_antisym)
      from l2N N53 have p: "(2::nat) ^ nat l \<le> 2 ^ 53" by (rule order_trans)
      have "nat l \<le> 53" by (rule power_le_imp_le_exp[of 2, OF _ p]) simp
      with a N show ?thesis by simp
    qed
    show "e \<le> 1" using * by (cases "53 \<le> l") (auto simp: e_def)
    show "N = 2 ^ 53" if "e = 1" using * that by (cases "53 \<le> l") (auto simp: e_def)
  qed
  consider "e < 0" | "e = 0" | "e = 1" using e1 by linarith
  then show ?thesis
  proof cases
    case 1
    then have "m = round_half_even ((N * 2 ^ nat (- e)) * d) d"
      by (simp add: m_def n mult_ac)
    then have "m = N * 2 ^ nat (- e)" using d by (simp only: round_half_even_exact)
    with 1 td show ?thesis by (simp add: N_def)
  next
    case 2
    then have "m = round_half_even (N * d) d" by (simp add: m_def n)
    then have m: "m = N" using d by (simp only: round_half_even_exact)
    have "N < 2 ^ 1024" using le unfolding N_def[symmetric]
      by (rule le_less_trans) simp
    with 2 td m show ?thesis by (simp add: N_def)
  next
    case 3
    then have N: "N = 2 ^ 53" by (rule e1N)
    from 3 have "m = round_half_even (2 ^ 52 * (d * 2)) (d * 2)" by (simp add: m_def n N)
    then have m: "m = 2 ^ 52" using d by (simp only: round_half_even_exact)
    with 3 td N show ?thesis by (simp add: N_def[symmetric])
  qed
qed

lemma bit_length_pos: "0 < n \<Longrightarrow> 0 < bit_length n"
  by (simp add: bit_length.simps[of n])

text \<open>\<open>floor_log2\<close> is not below the logarithm of the quotient either.\<close>

lemma floor_log2_gt:
  assumes "0 < n" and "0 < d" and "0 \<le> floor_log2 n d + 1"
  shows "n < d * 2 ^ nat (floor_log2 n d + 1)"
proof -
  define l where "l = int (bit_length n) - int (bit_length d)"
  have fl: "floor_log2 n d =
      (if (if 0 \<le> l then d * 2 ^ nat l \<le> n else d \<le> n * 2 ^ nat (- l)) then l else l - 1)"
    unfolding floor_log2_def l_def Let_def by (rule refl)
  show ?thesis
  proof (cases "if 0 \<le> l then d * 2 ^ nat l \<le> n else d \<le> n * 2 ^ nat (- l)")
    case True
    then have eq: "floor_log2 n d = l" unfolding fl by (rule if_P)
    with assms(3) have l0: "0 \<le> l + 1" by simp
    have dpos: "0 < bit_length d" using assms(2) by (rule bit_length_pos)
    from l0 have bl: "bit_length n = (bit_length d - 1) + nat (l + 1)"
      unfolding l_def using dpos by linarith
    have "n < 2 ^ bit_length n" by (rule bit_length_upper)
    also have "\<dots> = 2 ^ (bit_length d - 1) * 2 ^ nat (l + 1)"
      by (simp only: bl power_add)
    also have "\<dots> \<le> d * 2 ^ nat (l + 1)"
      using bit_length_lower[OF assms(2)] by simp
    finally show ?thesis by (simp only: eq)
  next
    case False
    then have eq: "floor_log2 n d = l - 1" unfolding fl by (rule if_not_P)
    with assms(3) have l0: "0 \<le> l" by simp
    with False have "n < d * 2 ^ nat l" by simp
    then show ?thesis by (simp add: eq)
  qed
qed

lemma floor_log2_ge:
  assumes "0 < d" and "d * 2 ^ k \<le> n"
  shows "int k \<le> floor_log2 n d"
proof (rule ccontr)
  assume "\<not> int k \<le> floor_log2 n d"
  then have lt: "floor_log2 n d + 1 \<le> int k" by simp
  from assms have npos: "0 < n"
    by (cases n) auto
  show False
  proof (cases "0 \<le> floor_log2 n d + 1")
    case True
    then have "n < d * 2 ^ nat (floor_log2 n d + 1)"
      using npos assms(1) by (intro floor_log2_gt)
    also have "\<dots> \<le> d * 2 ^ k"
      using lt True by (intro mult_left_mono power_increasing) auto
    finally show False using assms(2) by simp
  next
    case False
    define l where "l = int (bit_length n) - int (bit_length d)"
    have fl: "floor_log2 n d =
        (if (if 0 \<le> l then d * 2 ^ nat l \<le> n else d \<le> n * 2 ^ nat (- l)) then l else l - 1)"
      unfolding floor_log2_def l_def Let_def by (rule refl)
    from False fl have "l < 0"
      by (simp split: if_splits)
    then have "bit_length n < bit_length d" unfolding l_def by simp
    then have "(2::nat) ^ bit_length n \<le> 2 ^ (bit_length d - 1)"
      by (intro power_increasing) auto
    then have "n < d"
      using bit_length_upper[of n] bit_length_lower[OF assms(1)] by linarith
    also have "\<dots> \<le> d * 2 ^ k" by simp
    finally show False using assms(2) by simp
  qed
qed

lemma round_half_even_ge: "a div b \<le> round_half_even a b"
  by (simp add: round_half_even_def Let_def)

text \<open>A literal of value \<open>2 ^ 1024\<close> or more becomes an infinity.\<close>

lemma to_double_overflow:
  assumes d: "0 < d" and big: "d * 2 ^ 1024 \<le> n"
  shows "to_double neg n d = Infinity neg"
proof -
  define l where "l = floor_log2 n d"
  define e where "e = max (l - 52) (- 1074)"
  define m where "m = round_half_even n (d * 2 ^ nat e)"
  from big d have npos: "0 < n" by (cases n) auto
  have l1024: "1024 \<le> l"
    unfolding l_def using floor_log2_ge[OF d big] by simp
  then have e: "e = l - 52" and e0: "0 \<le> e" by (simp_all add: e_def)
  have td: "to_double neg n d = (if 2 ^ 1024 \<le> m * 2 ^ nat e then Infinity neg else Finite neg m e)"
    using npos e0 by (simp add: to_double_def Let_def l_def[symmetric] e_def[symmetric] m_def)
  have "2 ^ 1024 \<le> m * 2 ^ nat e"
  proof (cases "nat e \<le> 1024")
    case True
    then have "(2::nat) ^ 1024 = 2 ^ (1024 - nat e) * 2 ^ nat e"
      by (simp only: power_add[symmetric]) simp
    then have "(d * 2 ^ nat e) * 2 ^ (1024 - nat e) \<le> n"
      using big by (simp add: mult_ac)
    then have "2 ^ (1024 - nat e) \<le> n div (d * 2 ^ nat e)"
      using d by (simp add: less_eq_div_iff_mult_less_eq mult.commute)
    also have "\<dots> \<le> m" unfolding m_def by (rule round_half_even_ge)
    finally have "2 ^ (1024 - nat e) * 2 ^ nat e \<le> m * (2::nat) ^ nat e"
      by (rule mult_right_mono) simp
    then show ?thesis
      using True by (simp only: power_add[symmetric]) simp
  next
    case False
    have "d * 2 ^ nat l \<le> n"
      unfolding l_def using npos d l1024 by (intro floor_log2_le) (simp_all add: l_def)
    moreover have "(2::nat) ^ nat e \<le> 2 ^ nat l"
      using e e0 by (intro power_increasing) auto
    ultimately have "(d * 2 ^ nat e) * 1 \<le> n"
      by (metis mult.right_neutral mult_le_mono2 order_trans)
    then have "1 \<le> n div (d * 2 ^ nat e)"
      using d by (simp add: less_eq_div_iff_mult_less_eq)
    also have "\<dots> \<le> m" unfolding m_def by (rule round_half_even_ge)
    finally have "1 * 2 ^ nat e \<le> m * (2::nat) ^ nat e"
      by (rule mult_right_mono) simp
    then have "(2::nat) ^ nat e \<le> m * 2 ^ nat e"
      by (simp only: mult_1)
    moreover have "(2::nat) ^ 1024 \<le> 2 ^ nat e"
      using False by (intro power_increasing) auto
    ultimately show ?thesis by (rule order_trans[rotated])
  qed
  with td show ?thesis by simp
qed

section \<open>The answer parser\<close>

lemma py_int_Inl: "py_int x = Inl e \<Longrightarrow> exc_type e = OverflowError \<and> (\<exists>s. x = Infinity s)"
  by (cases x) auto

lemma parse_decimal_denominator:
  assumes "parse_decimal s = Some (neg, n, d)"
  shows "0 < d"
proof -
  define sg1 where "sg1 = (if s \<noteq> [] \<and> hd s = CHR ''+'' then ([], tl s) else opt_char (CHR ''-'') s)"
  define s2 where "s2 = snd (opt_char (CHR ''.'') (dropWhile is_digit (snd sg1)))"
  have "parse_decimal s =
      (if dropWhile is_digit s2 \<noteq> [] \<or> (takeWhile is_digit (snd sg1) = [] \<and> takeWhile is_digit s2 = [])
       then None
       else Some (fst sg1 \<noteq> [], digits_val (takeWhile is_digit (snd sg1) @ takeWhile is_digit s2),
                  10 ^ length (takeWhile is_digit s2)))"
    unfolding parse_decimal_def Let_def split_beta sg1_def s2_def by (rule refl)
  with assms have "d = 10 ^ length (takeWhile is_digit s2)"
    by (simp split: if_splits)
  then show ?thesis by simp
qed

lemma number_rule_fires:
  assumes "any_word_in number_words instruction" and "findall_number response \<noteq> []"
    and "parse_decimal (last (findall_number response)) = Some (neg, n, d)"
  shows "number_rule response instruction =
           Some (case py_int (to_double neg n d) of Inl e \<Rightarrow> Inl e | Inr k \<Rightarrow> Inr (AInt k))"
  using assms
  by (auto simp: number_rule_def py_float_def is_ValueError_def split: sum.splits dest: py_int_Inl)

lemma instruction_total:
  "any_word_in number_words ''What is the total?''" "\<not> any_word_in bool_words ''What is the total?''"
  by (simp_all add: any_word_in_def number_words_def bool_words_def lower_def lower_char_def is_upper_def)

text \<open>
  Claim C4.  When the instruction contains one of the words \<open>true\<close>, \<open>false\<close>,
  \<open>yes\<close>, \<open>no\<close> (in any letter case, that is, the lower-cased instruction contains
  the word), \<open>parse_answer\<close> returns a boolean for every model text, and the boolean is
  true exactly when the stripped model text equals \<open>true\<close>, \<open>yes\<close> or \<open>1\<close> without
  regard to case.  The rule comes first: the result does not depend on the later rules
  (nor on \<open>json.loads\<close>).
\<close>

theorem parse_answer_boolean:
  assumes "w \<in> set bool_words" and "lower instruction = p @ w @ q"
  shows "parse_answer json_loads response instruction =
           Inr (ABool (ci_equal (strip response) ''true'' \<or> ci_equal (strip response) ''yes''
                       \<or> ci_equal (strip response) ''1''))"
proof -
  have "any_word_in bool_words instruction"
    using assms by (rule any_word_inI)
  moreover have "lower ''true'' = ''true''" "lower ''yes'' = ''yes''" "lower ''1'' = ''1''"
    by (simp_all add: lower_def lower_char_def is_upper_def)
  ultimately show ?thesis
    by (simp add: parse_answer_def ci_equal_def Let_def)
qed

text \<open>
  The theorem at the instruction of the specification's scenario, with two model texts.
\<close>

theorem parse_answer_boolean_witness:
  "''yes'' \<in> set bool_words
   \<and> lower ''Is the result valid? (yes/no)'' = ''is the result valid? ('' @ ''yes'' @ ''/no)''
   \<and> parse_answer no_json ''No, it is not'' ''Is the result valid? (yes/no)'' = Inr (ABool False)
   \<and> parse_answer no_json '' YES  '' ''Is the result valid? (yes/no)'' = Inr (ABool True)"
proof -
  have w: "''yes'' \<in> set bool_words"
    by (simp add: bool_words_def)
  have l: "lower ''Is the result valid? (yes/no)'' = ''is the result valid? ('' @ ''yes'' @ ''/no)''"
    by (simp add: lower_def lower_char_def is_upper_def)
  have a: "parse_answer no_json ''No, it is not'' ''Is the result valid? (yes/no)'' = Inr (ABool False)"
    using parse_answer_boolean[OF w l, of no_json "''No, it is not''"]
    by (simp add: ci_equal_def lower_def lower_char_def is_upper_def strip_def py_isspace_def)
  have b: "parse_answer no_json '' YES  '' ''Is the result valid? (yes/no)'' = Inr (ABool True)"
    using parse_answer_boolean[OF w l, of no_json "'' YES  ''"]
    by (simp add: ci_equal_def lower_def lower_char_def is_upper_def strip_def py_isspace_def)
  from w l a b show ?thesis by blast
qed

text \<open>
  Claim C10.  The keyword test is substring containment on the lower-cased
  instruction.  Whatever stands before and after an occurrence of a boolean word (so
  also when the word is part of a longer word, and also when a number keyword occurs
  elsewhere in the instruction), \<open>parse_answer\<close> returns the boolean of the boolean
  rule, for every model text.
\<close>

theorem bool_word_inside_word:
  assumes "lower t \<in> set bool_words"
  shows "parse_answer json_loads response (p @ t @ q) =
           Inr (ABool (lower (strip response) \<in> set [''true'', ''yes'', ''1'']))"
proof -
  have "lower (p @ t @ q) = lower p @ lower t @ lower q"
    by (simp add: lower_append)
  with assms have "any_word_in bool_words (p @ t @ q)"
    by (rule any_word_inI)
  then show ?thesis
    by (simp add: parse_answer_def Let_def)
qed

text \<open>
  The theorem at \<open>Please Note the total value\<close>: the \<open>No\<close> of \<open>Note\<close> makes the answer
  to the model text \<open>42\<close> the boolean \<open>False\<close>, although \<open>total\<close> and \<open>value\<close> are number
  keywords.
\<close>

theorem bool_word_inside_word_witness:
  "lower ''No'' \<in> set bool_words
   \<and> any_word_in number_words (''Please '' @ ''No'' @ ''te the total value'')
   \<and> parse_answer no_json ''42'' (''Please '' @ ''No'' @ ''te the total value'') = Inr (ABool False)"
proof -
  have w: "lower ''No'' \<in> set bool_words"
    by (simp add: bool_words_def lower_def lower_char_def is_upper_def)
  have n: "any_word_in number_words (''Please '' @ ''No'' @ ''te the total value'')"
    by (simp add: any_word_in_def number_words_def lower_def lower_char_def is_upper_def)
  have "parse_answer no_json ''42'' (''Please '' @ ''No'' @ ''te the total value'') = Inr (ABool False)"
    using bool_word_inside_word[OF w, of no_json "''42''" "''Please ''" "''te the total value''"]
    by (simp add: lower_def lower_char_def is_upper_def strip_def py_isspace_def)
  with w n show ?thesis by blast
qed

text \<open>
  Claim C1, as the code has it.  When the instruction contains a number keyword and no
  boolean word, and the stripped model text contains a numeric literal, let \<open>n / d\<close>
  with the sign \<open>neg\<close> be the value of the last one.  If the double nearest to it is
  finite, \<open>parse_answer\<close> returns that double truncated toward zero, as an integer: a
  fractional part is dropped, never kept.  In particular a literal that is a whole
  number of magnitude at most \<open>2 ^ 53\<close> is returned as it is.
\<close>

theorem parse_answer_number:
  assumes "any_word_in number_words instruction" and "\<not> any_word_in bool_words instruction"
    and "findall_number (strip response) \<noteq> []"
    and "parse_decimal (last (findall_number (strip response))) = Some (neg, n, d)"
  shows "(to_double neg n d = Finite neg m e \<longrightarrow>
            parse_answer json_loads response instruction =
              Inr (AInt ((if neg then - 1 else 1)
                         * int (if 0 \<le> e then m * 2 ^ nat e else m div 2 ^ nat (- e)))))
       \<and> (d dvd n \<and> n div d \<le> 2 ^ 53 \<longrightarrow>
            parse_answer json_loads response instruction =
              Inr (AInt ((if neg then - 1 else 1) * int (n div d))))"
proof -
  have pa: "parse_answer json_loads response instruction =
              (case py_int (to_double neg n d) of Inl e \<Rightarrow> Inl e | Inr k \<Rightarrow> Inr (AInt k))"
    using assms(2) number_rule_fires[OF assms(1,3,4)] by (simp add: parse_answer_def)
  have 1: "parse_answer json_loads response instruction =
              Inr (AInt ((if neg then - 1 else 1)
                         * int (if 0 \<le> e then m * 2 ^ nat e else m div 2 ^ nat (- e))))"
    if "to_double neg n d = Finite neg m e"
    using that by (simp add: pa)
  have 2: "parse_answer json_loads response instruction =
              Inr (AInt ((if neg then - 1 else 1) * int (n div d)))"
    if "d dvd n \<and> n div d \<le> 2 ^ 53"
  proof -
    from assms(4) have "0 < d" by (rule parse_decimal_denominator)
    with that obtain m' e' where "to_double neg n d = Finite neg m' e'"
      and "(if 0 \<le> e' then m' * 2 ^ nat e' else m' div 2 ^ nat (- e')) = n div d"
      using to_double_whole[of d n neg] by blast
    then show ?thesis by (simp add: pa)
  qed
  from 1 2 show ?thesis by blast
qed

text \<open>The theorem at the specification's scenario: the answer is \<open>37\<close>.\<close>

theorem parse_answer_number_witness:
  "any_word_in number_words ''What is the total?'' \<and> \<not> any_word_in bool_words ''What is the total?''
   \<and> findall_number (strip ''The total is 37 apples'') = [''37'']
   \<and> parse_decimal ''37'' = Some (False, 37, 1)
   \<and> to_double False 37 1 = Finite False 5207287069147136 (- 47)
   \<and> parse_answer no_json ''The total is 37 apples'' ''What is the total?'' = Inr (AInt 37)"
proof -
  have s: "strip ''The total is 37 apples'' = ''The total is 37 apples''"
    by (simp add: strip_def py_isspace_def)
  have f: "findall_number (strip ''The total is 37 apples'') = [''37'']"
    unfolding s by (simp add: match_number_def opt_char_def is_digit_def)
  have ne: "findall_number (strip ''The total is 37 apples'') \<noteq> []"
    by (simp only: f) simp
  have p: "parse_decimal ''37'' = Some (False, 37, 1)"
    by (simp add: parse_decimal_def opt_char_def is_digit_def digits_val_def digit_val_def)
  have pl: "parse_decimal (last (findall_number (strip ''The total is 37 apples''))) = Some (False, 37, 1)"
    by (simp add: f p)
  have t: "to_double False 37 1 = Finite False 5207287069147136 (- 47)"
    by (simp add: to_double_def floor_log2_def bit_length.simps round_half_even_def Let_def)
  have "parse_answer no_json ''The total is 37 apples'' ''What is the total?'' = Inr (AInt 37)"
    using parse_answer_number[OF instruction_total ne pl, of 5207287069147136 "- 47" no_json] t
    by simp
  with instruction_total f p t show ?thesis by blast
qed

text \<open>
  The claim as the specification states it fails on a literal with a fractional part:
  for \<open>3.7\<close> the answer is the integer \<open>3\<close>, not a fractional value.
\<close>

theorem parse_answer_fraction_counterexample:
  "any_word_in number_words ''What is the total?'' \<and> \<not> any_word_in bool_words ''What is the total?''
   \<and> findall_number (strip ''The total is 3.7'') = [''3.7'']
   \<and> parse_answer no_json ''The total is 3.7'' ''What is the total?'' = Inr (AInt 3)"
proof -
  have s: "strip ''The total is 3.7'' = ''The total is 3.7''"
    by (simp add: strip_def py_isspace_def)
  have f: "findall_number (strip ''The total is 3.7'') = [''3.7'']"
    unfolding s by (simp add: match_number_def opt_char_def is_digit_def)
  have p: "parse_decimal ''3.7'' = Some (False, 37, 10)"
    by (simp add: parse_decimal_def opt_char_def is_digit_def digits_val_def digit_val_def)
  have t: "to_double False 37 10 = Finite False 8331659310635418 (- 51)"
    by (simp add: to_double_def floor_log2_def bit_length.simps round_half_even_def Let_def)
  have n: "number_rule (strip ''The total is 3.7'') ''What is the total?'' = Some (Inr (AInt 3))"
    using instruction_total(1) by (simp add: number_rule_def f py_float_def p t)
  have "parse_answer no_json ''The total is 3.7'' ''What is the total?'' = Inr (AInt 3)"
    using instruction_total(2) by (simp add: parse_answer_def n)
  with instruction_total f show ?thesis by blast
qed

text \<open>
  Claim C9, as the code has it.  When the instruction contains a number keyword and no
  boolean word, and the stripped model text contains a numeric literal: \<open>float\<close>
  accepts every match of the pattern, and \<open>int\<close> of the result never raises
  \<open>ValueError\<close>; the number rule never falls through, so the later rules are not
  reached; \<open>parse_answer\<close> returns an integer, unless the double nearest to the last
  literal is infinite, in which case the \<open>OverflowError\<close> of \<open>int\<close> leaves
  \<open>parse_answer\<close>.  That is the case for every literal of value \<open>2 ^ 1024\<close> or more.
\<close>

theorem number_rule_conversion:
  assumes "any_word_in number_words instruction" and "\<not> any_word_in bool_words instruction"
    and "findall_number (strip response) \<noteq> []"
  shows "(\<forall>lit \<in> set (findall_number (strip response)).
            \<exists>x. py_float lit = Inr x \<and> (\<forall>e. py_int x = Inl e \<longrightarrow> \<not> is_ValueError (exc_type e)))
       \<and> number_rule (strip response) instruction \<noteq> None
       \<and> ((\<exists>k. parse_answer json_loads response instruction = Inr (AInt k))
          \<or> (\<exists>s. py_float (last (findall_number (strip response))) = Inr (Infinity s)
                 \<and> parse_answer json_loads response instruction =
                     Inl (PyExc OverflowError ''cannot convert float infinity to integer'')))
       \<and> (\<forall>neg n d. parse_decimal (last (findall_number (strip response))) = Some (neg, n, d)
              \<and> d * 2 ^ 1024 \<le> n \<longrightarrow>
            parse_answer json_loads response instruction =
              Inl (PyExc OverflowError ''cannot convert float infinity to integer''))"
proof -
  have 1: "\<exists>x. py_float lit = Inr x \<and> (\<forall>e. py_int x = Inl e \<longrightarrow> \<not> is_ValueError (exc_type e))"
    if "lit \<in> set (findall_number (strip response))" for lit
  proof -
    from that obtain neg n k where "parse_decimal lit = Some (neg, n, 10 ^ k)"
      using findall_number_parses by blast
    then have "py_float lit = Inr (to_double neg n (10 ^ k))"
      by (simp add: py_float_def)
    moreover have "\<forall>e. py_int (to_double neg n (10 ^ k)) = Inl e \<longrightarrow> \<not> is_ValueError (exc_type e)"
      by (auto simp: is_ValueError_def dest: py_int_Inl)
    ultimately show ?thesis by blast
  qed
  from assms(3) have "last (findall_number (strip response)) \<in> set (findall_number (strip response))"
    by (rule last_in_set)
  then obtain neg n k where pd: "parse_decimal (last (findall_number (strip response))) = Some (neg, n, 10 ^ k)"
    using findall_number_parses by blast
  note nr = number_rule_fires[OF assms(1,3) pd]
  then have 2: "number_rule (strip response) instruction \<noteq> None"
    by simp
  have pa: "parse_answer json_loads response instruction =
              (case py_int (to_double neg n (10 ^ k)) of Inl e \<Rightarrow> Inl e | Inr k \<Rightarrow> Inr (AInt k))"
    using assms(2) nr by (simp add: parse_answer_def)
  have 3: "(\<exists>k. parse_answer json_loads response instruction = Inr (AInt k))
          \<or> (\<exists>s. py_float (last (findall_number (strip response))) = Inr (Infinity s)
                 \<and> parse_answer json_loads response instruction =
                     Inl (PyExc OverflowError ''cannot convert float infinity to integer''))"
  proof (cases "to_double neg n (10 ^ k)")
    case (Finite s m e)
    then show ?thesis by (simp add: pa)
  next
    case (Infinity s)
    with pd show ?thesis by (simp add: pa py_float_def)
  qed
  have 4: "parse_answer json_loads response instruction =
              Inl (PyExc OverflowError ''cannot convert float infinity to integer'')"
    if "parse_decimal (last (findall_number (strip response))) = Some (neg', n', d')
          \<and> d' * 2 ^ 1024 \<le> n'" for neg' n' d'
  proof -
    from that pd have eq: "neg' = neg" "n' = n" "d' = 10 ^ k" by simp_all
    have "to_double neg n (10 ^ k) = Infinity neg"
      using that unfolding eq by (intro to_double_overflow) simp_all
    then show ?thesis by (simp add: pa)
  qed
  from 1 2 3 4 show ?thesis by blast
qed

text \<open>The theorem at a negative literal with a fractional part.\<close>

theorem number_rule_conversion_witness:
  "any_word_in number_words ''Calculate the value'' \<and> \<not> any_word_in bool_words ''Calculate the value''
   \<and> findall_number (strip ''Answer: -12.50 units'') = [''-12.50'']
   \<and> number_rule (strip ''Answer: -12.50 units'') ''Calculate the value'' \<noteq> None
   \<and> parse_answer no_json ''Answer: -12.50 units'' ''Calculate the value'' = Inr (AInt (- 12))"
proof -
  have i: "any_word_in number_words ''Calculate the value''" "\<not> any_word_in bool_words ''Calculate the value''"
    by (simp_all add: any_word_in_def number_words_def bool_words_def lower_def lower_char_def is_upper_def)
  have s: "strip ''Answer: -12.50 units'' = ''Answer: -12.50 units''"
    by (simp add: strip_def py_isspace_def)
  have f: "findall_number (strip ''Answer: -12.50 units'') = [''-12.50'']"
    unfolding s by (simp add: match_number_def opt_char_def is_digit_def)
  have ne: "findall_number (strip ''Answer: -12.50 units'') \<noteq> []"
    by (simp only: f) simp
  note c = number_rule_conversion[OF i ne, of no_json]
  have p: "parse_decimal ''-12.50'' = Some (True, 1250, 100)"
    by (simp add: parse_decimal_def opt_char_def is_digit_def digits_val_def digit_val_def)
  have t: "to_double True 1250 100 = Finite True 7036874417766400 (- 49)"
    by (simp add: to_double_def floor_log2_def bit_length.simps round_half_even_def Let_def)
  from c have "\<exists>k. parse_answer no_json ''Answer: -12.50 units'' ''Calculate the value'' = Inr (AInt k)"
    by (simp add: f py_float_def p t)
  then obtain k where k: "parse_answer no_json ''Answer: -12.50 units'' ''Calculate the value'' = Inr (AInt k)"
    by blast
  have n: "number_rule (strip ''Answer: -12.50 units'') ''Calculate the value'' = Some (Inr (AInt (- 12)))"
    using i(1) by (simp add: number_rule_def f py_float_def p t)
  have "parse_answer no_json ''Answer: -12.50 units'' ''Calculate the value'' = Inr (AInt (- 12))"
    using i(2) by (simp add: parse_answer_def n)
  with i f c show ?thesis by blast
qed

text \<open>
  The claim as stated (an integer is always returned) fails on a numeral of 309 digits:
  \<open>parse_answer\<close> raises \<open>OverflowError\<close>.
\<close>

theorem number_rule_overflow_counterexample:
  "any_word_in number_words ''What is the total?'' \<and> \<not> any_word_in bool_words ''What is the total?''
   \<and> findall_number (strip huge_number) = [huge_number]
   \<and> parse_answer no_json huge_number ''What is the total?''
       = Inl (PyExc OverflowError ''cannot convert float infinity to integer'')"
proof -
  have s: "strip huge_number = huge_number"
    by (simp add: huge_number_def strip_def py_isspace_def)
  have f: "findall_number (strip huge_number) = [huge_number]"
    unfolding s by (simp add: huge_number_def match_number_def opt_char_def is_digit_def)
  have p: "parse_decimal huge_number = Some (False, 2 * 10 ^ 308, 1)"
    by (simp add: huge_number_def parse_decimal_def opt_char_def is_digit_def digits_val_def digit_val_def)
  have t: "to_double False (2 * 10 ^ 308) 1 = Infinity False"
    by (rule to_double_overflow) simp_all
  have ne: "findall_number (strip huge_number) \<noteq> []"
    by (simp only: f) simp
  have pl: "parse_decimal (last (findall_number (strip huge_number))) = Some (False, 2 * 10 ^ 308, 1)"
    by (simp add: f p)
  have "number_rule (strip huge_number) ''What is the total?''
          = Some (case py_int (Infinity False) of Inl e \<Rightarrow> Inl e | Inr k \<Rightarrow> Inr (AInt k))"
    using number_rule_fires[OF instruction_total(1) ne pl] by (simp only: t)
  then have n: "number_rule (strip huge_number) ''What is the total?''
             = Some (Inl (PyExc OverflowError ''cannot convert float infinity to integer''))"
    by simp
  have "parse_answer no_json huge_number ''What is the total?''
          = Inl (PyExc OverflowError ''cannot convert float infinity to integer'')"
    using instruction_total(2) by (simp add: parse_answer_def n)
  with instruction_total f show ?thesis by blast
qed

section \<open>The submit URL\<close>

lemma match_url_key_prefix: "match_url_key s = Some m \<Longrightarrow> prefix url_key m"
  by (auto simp: match_url_key_def Let_def split: if_splits list.splits option.splits)

lemma search_url_key_prefix: "search_url_key s = Some m \<Longrightarrow> prefix url_key m"
  by (induction s) (auto split: option.splits dest: match_url_key_prefix)

text \<open>
  When only the third pattern matches, the result is the whole match without its
  quotes, which begins with the key and the colon: it is not an absolute URL.
\<close>

lemma extract_submit_url_key:
  assumes "search_url_ending ''/submit'' html = None"
    and "search_url_ending ''/api/submit'' html = None"
    and "search_url_key html = Some m"
  shows "extract_submit_url html = Some (filter (\<lambda>c. c \<noteq> CHR 0x22) m)"
    and "prefix ''url:'' (filter (\<lambda>c. c \<noteq> CHR 0x22) m)"
proof -
  show "extract_submit_url html = Some (filter (\<lambda>c. c \<noteq> CHR 0x22) m)"
    using assms by (simp add: extract_submit_url_def)
  from search_url_key_prefix[OF assms(3)] obtain r where "m = url_key @ r"
    unfolding prefix_def by blast
  then show "prefix ''url:'' (filter (\<lambda>c. c \<noteq> CHR 0x22) m)"
    by (simp add: url_key_def)
qed

text \<open>
  Claim C6.  On a page that contains no URL ending in \<open>/submit\<close> or \<open>/api/submit\<close>
  but contains the literal \<open>"url": "https://example.com/post"\<close>, the third pattern
  matches and \<open>extract_submit_url\<close> returns the whole match without its quotes,
  \<open>url: https://example.com/post\<close>, where the claim says the URL itself: the pattern
  marks the URL as group 1, but group 0 is returned.
\<close>

theorem url_key_match_keeps_key:
  \<open>search_url_ending ''/submit'' page_with_url_key = None
   \<and> search_url_ending ''/api/submit'' page_with_url_key = None
   \<and> search_url_key page_with_url_key = Some ''"url": "https://example.com/post"''
   \<and> extract_submit_url page_with_url_key = Some ''url: https://example.com/post''\<close>
proof -
  have 1: "search_url_ending ''/submit'' page_with_url_key = None"
    by (simp add: page_with_url_key_def match_url_ending_def match_scheme_def url_char_def py_isspace_def)
  have 2: "search_url_ending ''/api/submit'' page_with_url_key = None"
    by (simp add: page_with_url_key_def match_url_ending_def match_scheme_def url_char_def py_isspace_def)
  have 3: \<open>search_url_key page_with_url_key = Some ''"url": "https://example.com/post"''\<close>
    by (simp add: page_with_url_key_def match_url_key_def url_key_def match_scheme_def py_isspace_def)
  have 4: "extract_submit_url page_with_url_key = Some ''url: https://example.com/post''"
    by (simp add: extract_submit_url_def 1 2 3)
  from 1 2 3 4 show ?thesis by blast
qed

section \<open>The driver: one iteration\<close>

lemma log_simps [simp]:
  "status (log l st) = status st" "result (log l st) = result st"
  "current_url (log l st) = current_url st" "logs (log l st) = logs st @ [l]"
  by (simp_all add: log_def)

lemma fail_simps [simp]:
  "status (fail r st) = Failed" "result (fail r st) = Error r"
  "current_url (fail r st) = current_url st" "logs (fail r st) = logs st"
  by (simp_all add: fail_def)

lemma iteration_over_budget:
  "elapsed w > time_budget \<Longrightarrow>
     iteration json_loads email secret w n st =
       (Break, fail (JStr ''Time limit exceeded'') (log (LogExceeded (current_url st)) st))"
  by (simp add: iteration_def)

lemma run_loop_bound:
  "run_loop json_loads email secret ws n st = (x, k, st') \<Longrightarrow> n \<le> max_attempts \<Longrightarrow>
     n \<le> k \<and> k \<le> max_attempts"
proof (induction json_loads email secret ws n st rule: run_loop.induct)
  case (1 json_loads email secret ws n st)
  show ?case
  proof (cases "truthy (current_url st) \<and> n < max_attempts")
    case False
    with "1.prems" show ?thesis by (simp add: run_loop.simps[of _ _ _ _ n st])
  next
    case True
    obtain c st1 where it: "iteration json_loads email secret (ws n) (Suc n) st = (c, st1)"
      by (cases "iteration json_loads email secret (ws n) (Suc n) st")
    show ?thesis
    proof (cases c)
      case Continue
      with True it "1.prems" have "run_loop json_loads email secret ws (Suc n) st1 = (x, k, st')"
        by (simp add: run_loop.simps[of _ _ _ _ n st])
      with "1.IH"[OF True it[symmetric] Continue] True show ?thesis by simp
    next
      case Break
      with True it "1.prems" show ?thesis by (simp add: run_loop.simps[of _ _ _ _ n st])
    next
      case (Raise e)
      with True it "1.prems" show ?thesis by (simp add: run_loop.simps[of _ _ _ _ n st])
    qed
  qed
qed

lemma run_loop_step:
  assumes "truthy (current_url st)" and "n < max_attempts"
  shows "run_loop json_loads email secret ws n st =
           (case iteration json_loads email secret (ws n) (Suc n) st of
              (Continue, st') \<Rightarrow> run_loop json_loads email secret ws (Suc n) st'
            | (Break, st') \<Rightarrow> (None, Suc n, st')
            | (Raise e, st') \<Rightarrow> (Some e, Suc n, st'))"
  using assms by (simp add: run_loop.simps[of _ _ _ _ n st])

lemma attempt_no_submit_url:
  assumes "fetch_quiz_page w (current_url st) = Inr html"
    and "extract_submit_url html = None"
  shows "attempt json_loads email secret w st =
           (Inr Break,
            no_submit_url (log (LogInstruction (take 100 (extract_quiz_instruction html)))
                             (log LogFetching st)))"
  using assms by (simp add: attempt_def Let_def)

lemma attempt_submit:
  assumes "fetch_quiz_page w (current_url st) = Inr html"
    and "extract_submit_url html = Some u" and "u \<noteq> []"
  shows "attempt json_loads email secret w st =
           answer_and_submit json_loads email secret w (extract_quiz_instruction html) u
             (log (LogInstruction (take 100 (extract_quiz_instruction html))) (log LogFetching st))"
  using assms by (simp add: attempt_def Let_def)

lemma answer_and_submit_verdict:
  assumes "solve_quiz (create_message w) instruction = Inr solution"
    and "parse_answer json_loads solution instruction = Inr ans"
    and "submit_answer (requests_post w) u email secret (current_url st) ans = Inr verdict"
  shows "answer_and_submit json_loads email secret w instruction u st =
           inspect_verdict verdict
             (log (LogSubmissionResult verdict)
                (log LogSubmitting (log (LogParsed ans)
                   (log (LogSolution (take 100 solution)) (log LogSolving st)))))"
  using assms by (simp add: answer_and_submit_def Let_def)

lemma inspect_verdict_incorrect:
  assumes "\<not> truthy (get d ''correct'')"
  shows "inspect_verdict (JObj d) st =
           (if truthy (get d ''url'')
            then (Inr Continue, (log (LogMoving (get d ''url'')) st)\<lparr>current_url := get d ''url''\<rparr>)
            else (Inr Break,
                  fail (get_default d ''reason'' (JStr ''Unknown error''))
                    (log (LogNoNextUrl (get_default d ''reason'' (JStr ''Unknown error''))) st)))"
  using assms by (simp add: inspect_verdict_def Let_def)

lemma inspect_verdict_correct:
  assumes "truthy (get d ''correct'')"
  shows "inspect_verdict (JObj d) st =
           (if truthy (get d ''url'')
            then (Inr Continue, (log LogCorrect st)\<lparr>current_url := get d ''url''\<rparr>)
            else (Inr Break,
                  (log LogCompleted ((log LogCorrect st)\<lparr>current_url := get d ''url''\<rparr>))
                    \<lparr>status := Completed, result := Success\<rparr>))"
  using assms by (simp add: inspect_verdict_def Let_def)

lemma iteration_attempt:
  assumes "\<not> elapsed w > time_budget"
    and "attempt json_loads email secret w (log (LogProcessing (current_url st) n) st) = (Inr c, st')"
  shows "iteration json_loads email secret w n st = (c, st')"
  using assms by (simp add: iteration_def)

lemma iteration_starts_simps [simp]:
  "iteration_starts [] = 0"
  "iteration_starts (l # ls) = (if starts_iteration l then 1 else 0) + iteration_starts ls"
  "iteration_starts (xs @ ys) = iteration_starts xs + iteration_starts ys"
  by (simp_all add: iteration_starts_def)

lemma inspect_verdict_starts:
  "inspect_verdict v st = (r, st') \<Longrightarrow> iteration_starts (logs st') = iteration_starts (logs st)"
  by (auto simp: inspect_verdict_def Let_def split: json.splits if_splits)

lemma answer_and_submit_starts:
  "answer_and_submit json_loads email secret w i u st = (r, st') \<Longrightarrow>
     iteration_starts (logs st') = iteration_starts (logs st)"
  by (auto simp: answer_and_submit_def Let_def split: sum.splits dest!: inspect_verdict_starts)

lemma attempt_starts:
  "attempt json_loads email secret w st = (r, st') \<Longrightarrow>
     iteration_starts (logs st') = iteration_starts (logs st)"
  by (auto simp: attempt_def Let_def no_submit_url_def
        split: sum.splits option.splits if_splits dest!: answer_and_submit_starts)

lemma iteration_starts_Suc:
  assumes "iteration json_loads email secret w n st = (c, st')"
  shows "iteration_starts (logs st') = Suc (iteration_starts (logs st))"
proof (cases "elapsed w > time_budget")
  case True
  with assms show ?thesis by (auto simp: iteration_def)
next
  case False
  obtain r st1 where a: "attempt json_loads email secret w (log (LogProcessing (current_url st) n) st) = (r, st1)"
    by (cases "attempt json_loads email secret w (log (LogProcessing (current_url st) n) st)")
  from attempt_starts[OF a] have "iteration_starts (logs st1) = Suc (iteration_starts (logs st))"
    by simp
  with assms False a show ?thesis
    by (auto simp: iteration_def split: sum.splits if_splits)
qed

text \<open>The loop adds as many iteration starts to the log as \<open>attempt_count\<close> grows.\<close>

lemma run_loop_starts:
  "run_loop json_loads email secret ws n st = (x, k, st') \<Longrightarrow>
     iteration_starts (logs st') + n = iteration_starts (logs st) + k"
proof (induction json_loads email secret ws n st rule: run_loop.induct)
  case (1 json_loads email secret ws n st)
  show ?case
  proof (cases "truthy (current_url st) \<and> n < max_attempts")
    case False
    with "1.prems" show ?thesis by (simp add: run_loop.simps[of _ _ _ _ n st])
  next
    case True
    obtain c st1 where it: "iteration json_loads email secret (ws n) (Suc n) st = (c, st1)"
      by (cases "iteration json_loads email secret (ws n) (Suc n) st")
    note s = iteration_starts_Suc[OF it]
    show ?thesis
    proof (cases c)
      case Continue
      with True it "1.prems" have "run_loop json_loads email secret ws (Suc n) st1 = (x, k, st')"
        by (simp add: run_loop.simps[of _ _ _ _ n st])
      with "1.IH"[OF True it[symmetric] Continue] s show ?thesis by simp
    next
      case Break
      with True it "1.prems" s show ?thesis by (auto simp: run_loop.simps[of _ _ _ _ n st])
    next
      case (Raise e)
      with True it "1.prems" s show ?thesis by (auto simp: run_loop.simps[of _ _ _ _ n st])
    qed
  qed
qed

lemma after_submission_simps [simp]:
  "status (after_submission st n i s a v) = status st"
  "result (after_submission st n i s a v) = result st"
  "current_url (after_submission st n i s a v) = current_url st"
  by (simp_all add: after_submission_def)

text \<open>An iteration that gets as far as a verdict goes on with the inspection of it.\<close>

lemma attempt_verdict:
  assumes "fetch_quiz_page w (current_url st) = Inr html"
    and "extract_submit_url html = Some u" and "u \<noteq> []"
    and "solve_quiz (create_message w) (extract_quiz_instruction html) = Inr solution"
    and "parse_answer json_loads solution (extract_quiz_instruction html) = Inr ans"
    and "submit_answer (requests_post w) u email secret (current_url st) ans = Inr verdict"
  shows "attempt json_loads email secret w (log (LogProcessing (current_url st) n) st) =
           inspect_verdict verdict
             (after_submission st n (extract_quiz_instruction html) solution ans verdict)"
proof -
  have "attempt json_loads email secret w (log (LogProcessing (current_url st) n) st) =
          answer_and_submit json_loads email secret w (extract_quiz_instruction html) u
            (log (LogInstruction (take 100 (extract_quiz_instruction html)))
               (log LogFetching (log (LogProcessing (current_url st) n) st)))"
    using assms(1-3) by (intro attempt_submit) simp_all
  also have "\<dots> = inspect_verdict verdict
       (log (LogSubmissionResult verdict)
          (log LogSubmitting (log (LogParsed ans)
             (log (LogSolution (take 100 solution)) (log LogSolving
                (log (LogInstruction (take 100 (extract_quiz_instruction html)))
                   (log LogFetching (log (LogProcessing (current_url st) n) st))))))))"
    using assms(4-6) by (intro answer_and_submit_verdict) simp_all
  also have "log (LogSubmissionResult verdict)
          (log LogSubmitting (log (LogParsed ans)
             (log (LogSolution (take 100 solution)) (log LogSolving
                (log (LogInstruction (take 100 (extract_quiz_instruction html)))
                   (log LogFetching (log (LogProcessing (current_url st) n) st)))))))
        = after_submission st n (extract_quiz_instruction html) solution ans verdict"
    by (simp add: log_def after_submission_def)
  finally show ?thesis .
qed

lemma iteration_verdict:
  assumes "\<not> elapsed w > time_budget"
    and "fetch_quiz_page w (current_url st) = Inr html"
    and "extract_submit_url html = Some u" and "u \<noteq> []"
    and "solve_quiz (create_message w) (extract_quiz_instruction html) = Inr solution"
    and "parse_answer json_loads solution (extract_quiz_instruction html) = Inr ans"
    and "submit_answer (requests_post w) u email secret (current_url st) ans = Inr verdict"
    and "inspect_verdict verdict
           (after_submission st n (extract_quiz_instruction html) solution ans verdict) = (Inr c, st')"
  shows "iteration json_loads email secret w n st = (c, st')"
  using assms(1) attempt_verdict[OF assms(2-7), of n] assms(8)
  by (intro iteration_attempt) simp_all

text \<open>
  The two bounds of the loop.  The attempt cap is 10 and the time budget is three
  minutes.  The loop is left with \<open>attempt_count\<close> at most \<open>max_attempts\<close>, and
  \<open>attempt_count\<close> is the number of iterations that were begun, as the log shows
  them.  An iteration whose time check finds more than the budget elapsed does nothing
  but log the fact and set the status \<open>failed\<close> with the result
  \<open>Time limit exceeded\<close>: the page renderer, the model and the network of that
  iteration do not occur in its result, and the loop ends there.  The statement after
  the loop keeps the status \<open>failed\<close>, but it keeps the whole entry only below the
  tenth attempt.
\<close>

theorem driver_bounds:
  "max_attempts = 10 \<and> time_budget = 3 * 60 * 1000000
   \<and> fst (snd (run_loop json_loads email secret ws 0 st0)) \<le> max_attempts
   \<and> iteration_starts (logs (snd (snd (run_loop json_loads email secret ws 0 st0))))
       = iteration_starts (logs st0) + fst (snd (run_loop json_loads email secret ws 0 st0))
   \<and> (elapsed w > time_budget \<longrightarrow>
        iteration json_loads email secret w n st =
          (Break, fail (JStr ''Time limit exceeded'') (log (LogExceeded (current_url st)) st)))
   \<and> (truthy (current_url st) \<and> k < max_attempts \<and> elapsed (ws k) > time_budget \<longrightarrow>
        (\<exists>st'. run_loop json_loads email secret ws k st = (None, Suc k, st')
           \<and> status st' = Failed \<and> result st' = Error (JStr ''Time limit exceeded'')
           \<and> logs st' = logs st @ [LogExceeded (current_url st)]
           \<and> status (after_loop (Suc k) st') = Failed
           \<and> (Suc k < max_attempts \<longrightarrow> after_loop (Suc k) st' = st')))"
proof -
  have 1: "max_attempts = 10 \<and> time_budget = 3 * 60 * 1000000"
    by (simp add: max_attempts_def time_budget_def)
  obtain x k' st' where r: "run_loop json_loads email secret ws 0 st0 = (x, k', st')"
    by (cases "run_loop json_loads email secret ws 0 st0")
  from run_loop_bound[OF r] have 2: "fst (snd (run_loop json_loads email secret ws 0 st0)) \<le> max_attempts"
    by (simp add: r)
  from run_loop_starts[OF r]
  have 3: "iteration_starts (logs (snd (snd (run_loop json_loads email secret ws 0 st0))))
       = iteration_starts (logs st0) + fst (snd (run_loop json_loads email secret ws 0 st0))"
    by (simp add: r)
  have 4: "iteration json_loads email secret w n st =
          (Break, fail (JStr ''Time limit exceeded'') (log (LogExceeded (current_url st)) st))"
    if "elapsed w > time_budget"
    using that by (rule iteration_over_budget)
  have 5: "\<exists>st'. run_loop json_loads email secret ws k st = (None, Suc k, st')
           \<and> status st' = Failed \<and> result st' = Error (JStr ''Time limit exceeded'')
           \<and> logs st' = logs st @ [LogExceeded (current_url st)]
           \<and> status (after_loop (Suc k) st') = Failed
           \<and> (Suc k < max_attempts \<longrightarrow> after_loop (Suc k) st' = st')"
    if "truthy (current_url st) \<and> k < max_attempts \<and> elapsed (ws k) > time_budget"
  proof -
    from that have "run_loop json_loads email secret ws k st =
        (None, Suc k, fail (JStr ''Time limit exceeded'') (log (LogExceeded (current_url st)) st))"
      by (simp add: run_loop_step iteration_over_budget)
    then show ?thesis by (simp add: after_loop_def)
  qed
  from 1 2 3 4 5 show ?thesis by blast
qed

text \<open>
  A page without a submit URL.  When the loop enters an iteration within the budget,
  the page is fetched and \<open>extract_submit_url\<close> finds no URL in it, the loop ends with
  that iteration: the status is \<open>failed\<close>, the result is the error
  \<open>Could not find submit URL\<close>, and the log shows that neither the model was asked nor
  anything submitted.  The statement after the loop keeps the status \<open>failed\<close>, but it
  keeps the whole entry only below the tenth attempt.
\<close>

theorem missing_submit_url:
  assumes "truthy (current_url st)" and "n < max_attempts"
    and "\<not> elapsed (ws n) > time_budget"
    and "fetch_quiz_page (ws n) (current_url st) = Inr html"
    and "extract_submit_url html = None"
  shows "\<exists>st'. run_loop json_loads email secret ws n st = (None, Suc n, st')
          \<and> status st' = Failed \<and> result st' = Error (JStr ''Could not find submit URL'')
          \<and> logs st' = logs st @
                [LogProcessing (current_url st) (Suc n), LogFetching,
                 LogInstruction (take 100 (extract_quiz_instruction html)),
                 LogNoSubmitUrl (current_url st)]
          \<and> status (after_loop (Suc n) st') = Failed
          \<and> (Suc n < max_attempts \<longrightarrow> after_loop (Suc n) st' = st')"
proof -
  define st' where "st' = no_submit_url (log (LogInstruction (take 100 (extract_quiz_instruction html)))
                             (log LogFetching (log (LogProcessing (current_url st) (Suc n)) st)))"
  have "attempt json_loads email secret (ws n) (log (LogProcessing (current_url st) (Suc n)) st)
          = (Inr Break, st')"
    unfolding st'_def using assms(4,5) by (intro attempt_no_submit_url) simp_all
  with assms(3) have "iteration json_loads email secret (ws n) (Suc n) st = (Break, st')"
    by (rule iteration_attempt)
  with assms(1,2) have "run_loop json_loads email secret ws n st = (None, Suc n, st')"
    by (simp add: run_loop_step)
  moreover have "status st' = Failed" "result st' = Error (JStr ''Could not find submit URL'')"
    "logs st' = logs st @
                [LogProcessing (current_url st) (Suc n), LogFetching,
                 LogInstruction (take 100 (extract_quiz_instruction html)),
                 LogNoSubmitUrl (current_url st)]"
    by (simp_all add: st'_def no_submit_url_def)
  moreover have "status (after_loop (Suc n) st') = Failed"
    by (simp add: after_loop_def st'_def no_submit_url_def)
  moreover have "Suc n < max_attempts \<longrightarrow> after_loop (Suc n) st' = st'"
    by (simp add: after_loop_def)
  ultimately show ?thesis by blast
qed

text \<open>
  An incorrect verdict.  When an iteration obtains a verdict (a dict) whose
  \<open>correct\<close> entry is false in Python's sense: if the verdict has a next URL (a true
  \<open>url\<close> entry), the iteration ends with \<open>current_url\<close> set to it, status and result
  unchanged, and the loop goes on from there; otherwise the loop ends with the status
  \<open>failed\<close> and the verdict's \<open>reason\<close> as the error, or \<open>Unknown error\<close> when the
  verdict has no \<open>reason\<close> key.  The statement after the loop keeps the status
  \<open>failed\<close>, but it keeps the whole entry only below the tenth attempt.
\<close>

theorem incorrect_verdict:
  assumes "truthy (current_url st)" and "n < max_attempts"
    and "\<not> elapsed (ws n) > time_budget"
    and "fetch_quiz_page (ws n) (current_url st) = Inr html"
    and "extract_submit_url html = Some u" and "u \<noteq> []"
    and "solve_quiz (create_message (ws n)) (extract_quiz_instruction html) = Inr solution"
    and "parse_answer json_loads solution (extract_quiz_instruction html) = Inr ans"
    and "submit_answer (requests_post (ws n)) u email secret (current_url st) ans = Inr (JObj d)"
    and "\<not> truthy (get d ''correct'')"
  shows "(truthy (get d ''url'') \<longrightarrow>
           (\<exists>st'. iteration json_loads email secret (ws n) (Suc n) st = (Continue, st')
              \<and> current_url st' = get d ''url'' \<and> status st' = status st \<and> result st' = result st
              \<and> run_loop json_loads email secret ws n st
                  = run_loop json_loads email secret ws (Suc n) st'))
       \<and> (\<not> truthy (get d ''url'') \<longrightarrow>
           (\<exists>st'. run_loop json_loads email secret ws n st = (None, Suc n, st')
              \<and> status st' = Failed
              \<and> result st' = Error (case map_of d ''reason'' of Some r \<Rightarrow> r
                                                            | None \<Rightarrow> JStr ''Unknown error'')
              \<and> status (after_loop (Suc n) st') = Failed
              \<and> (Suc n < max_attempts \<longrightarrow> after_loop (Suc n) st' = st')))"
proof -
  define sub where "sub = after_submission st (Suc n) (extract_quiz_instruction html) solution ans (JObj d)"
  note iv = inspect_verdict_incorrect[OF assms(10), of sub]
  have 1: "\<exists>st'. iteration json_loads email secret (ws n) (Suc n) st = (Continue, st')
              \<and> current_url st' = get d ''url'' \<and> status st' = status st \<and> result st' = result st
              \<and> run_loop json_loads email secret ws n st
                  = run_loop json_loads email secret ws (Suc n) st'"
    if t: "truthy (get d ''url'')"
  proof -
    define st' where "st' = (log (LogMoving (get d ''url'')) sub)\<lparr>current_url := get d ''url''\<rparr>"
    from iv t have "inspect_verdict (JObj d) sub = (Inr Continue, st')"
      by (simp add: st'_def)
    then have it: "iteration json_loads email secret (ws n) (Suc n) st = (Continue, st')"
      unfolding sub_def by (rule iteration_verdict[OF assms(3-9)])
    with assms(1,2) have "run_loop json_loads email secret ws n st
                  = run_loop json_loads email secret ws (Suc n) st'"
      by (simp add: run_loop_step)
    moreover have "current_url st' = get d ''url''" "status st' = status st" "result st' = result st"
      by (simp_all add: st'_def sub_def)
    ultimately show ?thesis using it by blast
  qed
  have 2: "\<exists>st'. run_loop json_loads email secret ws n st = (None, Suc n, st')
              \<and> status st' = Failed
              \<and> result st' = Error (case map_of d ''reason'' of Some r \<Rightarrow> r
                                                            | None \<Rightarrow> JStr ''Unknown error'')
              \<and> status (after_loop (Suc n) st') = Failed
              \<and> (Suc n < max_attempts \<longrightarrow> after_loop (Suc n) st' = st')"
    if t: "\<not> truthy (get d ''url'')"
  proof -
    define reason where "reason = get_default d ''reason'' (JStr ''Unknown error'')"
    define st' where "st' = fail reason (log (LogNoNextUrl reason) sub)"
    from iv t have "inspect_verdict (JObj d) sub = (Inr Break, st')"
      by (simp add: st'_def reason_def)
    then have it: "iteration json_loads email secret (ws n) (Suc n) st = (Break, st')"
      unfolding sub_def by (rule iteration_verdict[OF assms(3-9)])
    with assms(1,2) have "run_loop json_loads email secret ws n st = (None, Suc n, st')"
      by (simp add: run_loop_step)
    moreover have "status st' = Failed"
      and "result st' = Error (case map_of d ''reason'' of Some r \<Rightarrow> r | None \<Rightarrow> JStr ''Unknown error'')"
      by (simp_all add: st'_def reason_def get_default_def split: option.splits)
    moreover have "status (after_loop (Suc n) st') = Failed"
      by (simp add: after_loop_def st'_def)
    moreover have "Suc n < max_attempts \<longrightarrow> after_loop (Suc n) st' = st'"
      by (simp add: after_loop_def)
    ultimately show ?thesis by blast
  qed
  from 1 2 show ?thesis by blast
qed

text \<open>
  Claim C7.  When \<open>requests.post\<close> raises, or the response's \<open>.json()\<close> raises, an
  exception \<open>e\<close> that is an \<open>Exception\<close> (as a timeout, a connection error and a
  JSON decoding error are), \<open>submit_answer\<close> returns the verdict
  \<open>{"correct": False, "reason": str(e)}\<close>.  The \<open>try\<close> body of the driver then
  completes without an exception: the iteration ends by the inspection of that
  verdict, with the status \<open>failed\<close> and the reason as the error, and the handler of
  \<open>Exception\<close> is not entered.
\<close>

theorem transport_failure_verdict:
  assumes "is_Exception (exc_type e)"
    and "requests_post w u \<lparr>p_email = email, p_secret = secret, p_url = current_url st, p_answer = ans\<rparr>
           = PostRaises e
         \<or> requests_post w u \<lparr>p_email = email, p_secret = secret, p_url = current_url st, p_answer = ans\<rparr>
           = Responded (Inl e)"
  shows "submit_answer (requests_post w) u email secret (current_url st) ans =
           Inr (JObj [(''correct'', JBool False), (''reason'', JStr (exc_msg e))])
       \<and> (solve_quiz (create_message w) instruction = Inr solution
            \<and> parse_answer json_loads solution instruction = Inr ans \<longrightarrow>
          (\<exists>st'. answer_and_submit json_loads email secret w instruction u st = (Inr Break, st')
             \<and> status st' = Failed \<and> result st' = Error (JStr (exc_msg e))
             \<and> logs st' = logs st @
                   [LogSolving, LogSolution (take 100 solution), LogParsed ans, LogSubmitting,
                    LogSubmissionResult (JObj [(''correct'', JBool False), (''reason'', JStr (exc_msg e))]),
                    LogNoNextUrl (JStr (exc_msg e))]))"
proof -
  define verdict where "verdict = JObj [(''correct'', JBool False), (''reason'', JStr (exc_msg e))]"
  have s: "submit_answer (requests_post w) u email secret (current_url st) ans = Inr verdict"
    using assms by (auto simp: submit_answer_def verdict_def)
  have "\<exists>st'. answer_and_submit json_loads email secret w instruction u st = (Inr Break, st')
             \<and> status st' = Failed \<and> result st' = Error (JStr (exc_msg e))
             \<and> logs st' = logs st @
                   [LogSolving, LogSolution (take 100 solution), LogParsed ans, LogSubmitting,
                    LogSubmissionResult verdict, LogNoNextUrl (JStr (exc_msg e))]"
    if "solve_quiz (create_message w) instruction = Inr solution
            \<and> parse_answer json_loads solution instruction = Inr ans"
  proof -
    from that s have "answer_and_submit json_loads email secret w instruction u st =
           inspect_verdict verdict
             (log (LogSubmissionResult verdict)
                (log LogSubmitting (log (LogParsed ans)
                   (log (LogSolution (take 100 solution)) (log LogSolving st)))))"
      by (intro answer_and_submit_verdict) simp_all
    then show ?thesis
      by (simp add: verdict_def inspect_verdict_def get_def get_default_def Let_def)
  qed
  with s show ?thesis unfolding verdict_def by blast
qed

section \<open>The driver on example chains\<close>

lemma quiz_page_submit_url: "extract_submit_url quiz_page = Some ''https://q.io/submit''"
  by (simp add: extract_submit_url_def quiz_page_def match_url_ending_def match_scheme_def
        url_char_def py_isspace_def)

lemma quiz_page_instruction: "extract_quiz_instruction quiz_page = ''What is the total?''"
  by (simp add: extract_quiz_instruction_def quiz_page_def match_result_div_def match_tag_def
        strip_def py_isspace_def)

lemma page_without_url_submit_url: "extract_submit_url page_without_url = None"
  by (simp add: extract_submit_url_def page_without_url_def match_url_ending_def match_scheme_def
        url_char_def py_isspace_def match_url_key_def url_key_def)

lemma page_without_url_instruction: "extract_quiz_instruction page_without_url = ''What is the total?''"
  by (simp add: extract_quiz_instruction_def page_without_url_def match_result_div_def match_tag_def
        strip_def py_isspace_def)

lemma parse_total_37: "parse_answer no_json ''The total is 37'' ''What is the total?'' = Inr (AInt 37)"
proof -
  have i: "any_word_in number_words ''What is the total?''" "\<not> any_word_in bool_words ''What is the total?''"
    by (simp_all add: any_word_in_def number_words_def bool_words_def lower_def lower_char_def is_upper_def)
  have s: "strip ''The total is 37'' = ''The total is 37''"
    by (simp add: strip_def py_isspace_def)
  have f: "findall_number ''The total is 37'' = [''37'']"
    by (simp add: match_number_def opt_char_def is_digit_def)
  have p: "parse_decimal ''37'' = Some (False, 37, Suc 0)"
    by (simp add: parse_decimal_def opt_char_def is_digit_def digits_val_def digit_val_def)
  have t: "to_double False 37 (Suc 0) = Finite False 5207287069147136 (- 47)"
    by (simp add: to_double_def floor_log2_def bit_length.simps round_half_even_def Let_def)
  have n: "number_rule ''The total is 37'' ''What is the total?'' = Some (Inr (AInt 37))"
    unfolding number_rule_def Let_def f using i(1) by (simp add: py_float_def p t)
  show ?thesis
    using i(2) by (simp add: parse_answer_def s n)
qed

lemma world_of_simps [simp]:
  "elapsed (world_of page outcome) = 1000000"
  "fetch_quiz_page (world_of page outcome) u = Inr page"
  "create_message (world_of page outcome) i = Inr ''The total is 37''"
  "requests_post (world_of page outcome) su pl = outcome"
  by (simp_all add: world_of_def)

lemma within_budget: "\<not> elapsed (world_of page outcome) > time_budget"
  by (simp add: time_budget_def)

lemma truthy_initial: "truthy (current_url (initial_state ''https://q.io/start''))"
  by (simp add: initial_state_def)

lemma solve_quiz_world: "solve_quiz (create_message (world_of page outcome)) i = Inr ''The total is 37''"
  by (simp add: solve_quiz_def)

text \<open>An iteration on the quiz page: everything up to the verdict is determined.\<close>

lemma quiz_world_iteration:
  assumes "submit_answer (requests_post (world_of quiz_page outcome)) ''https://q.io/submit''
             email secret (current_url st) (AInt 37) = Inr v"
    and "inspect_verdict v
           (after_submission st n ''What is the total?'' ''The total is 37'' (AInt 37) v) = (Inr c, st')"
  shows "iteration no_json email secret (world_of quiz_page outcome) n st = (c, st')"
proof (rule iteration_verdict[where html = quiz_page and u = "''https://q.io/submit''"
        and solution = "''The total is 37''" and ans = "AInt 37" and verdict = v])
  show "\<not> elapsed (world_of quiz_page outcome) > time_budget" by (rule within_budget)
  show "fetch_quiz_page (world_of quiz_page outcome) (current_url st) = Inr quiz_page" by simp
  show "extract_submit_url quiz_page = Some ''https://q.io/submit''" by (rule quiz_page_submit_url)
  show "''https://q.io/submit'' \<noteq> []" by simp
  show "solve_quiz (create_message (world_of quiz_page outcome)) (extract_quiz_instruction quiz_page)
          = Inr ''The total is 37''" by (rule solve_quiz_world)
  show "parse_answer no_json ''The total is 37'' (extract_quiz_instruction quiz_page) = Inr (AInt 37)"
    by (simp only: quiz_page_instruction parse_total_37)
  show "submit_answer (requests_post (world_of quiz_page outcome)) ''https://q.io/submit''
          email secret (current_url st) (AInt 37) = Inr v" by (rule assms(1))
  show "inspect_verdict v
          (after_submission st n (extract_quiz_instruction quiz_page) ''The total is 37'' (AInt 37) v)
          = (Inr c, st')"
    by (simp only: quiz_page_instruction assms(2))
qed

lemma submit_answer_responded:
  "submit_answer (requests_post (world_of page (Responded (Inr v)))) u email secret q a = Inr v"
  by (simp add: submit_answer_def)

text \<open>The chain of ten quizzes, from any iteration on.\<close>

lemma ten_quizzes_loop:
  assumes "truthy (current_url st)" and "n \<le> 9"
  shows "\<exists>st'. run_loop no_json email secret ten_quizzes n st = (None, 10, st')
           \<and> status st' = Completed \<and> result st' = Success"
  using assms
proof (induction "9 - n" arbitrary: n st)
  case 0
  then have n: "n = 9" by simp
  define sub where "sub = after_submission st (Suc n) ''What is the total?'' ''The total is 37'' (AInt 37) verdict_done"
  define st' where "st' = (log LogCompleted ((log LogCorrect sub)\<lparr>current_url := JNull\<rparr>))
                    \<lparr>status := Completed, result := Success\<rparr>"
  have "inspect_verdict verdict_done sub = (Inr Break, st')"
    by (simp add: verdict_done_def inspect_verdict_def get_def st'_def Let_def)
  then have "iteration no_json email secret (world_of quiz_page (Responded (Inr verdict_done))) (Suc n) st
          = (Break, st')"
    unfolding sub_def by (rule quiz_world_iteration[OF submit_answer_responded])
  then have "iteration no_json email secret (ten_quizzes n) (Suc n) st = (Break, st')"
    by (simp add: ten_quizzes_def n)
  with "0.prems"(1) have "run_loop no_json email secret ten_quizzes n st = (None, Suc n, st')"
    by (simp add: run_loop_step n max_attempts_def)
  moreover have "status st' = Completed" "result st' = Success"
    by (simp_all add: st'_def)
  ultimately show ?case by (simp add: n)
next
  case (Suc m)
  then have n: "n < 9" by simp
  define sub where "sub = after_submission st (Suc n) ''What is the total?'' ''The total is 37'' (AInt 37) verdict_next"
  define st1 where "st1 = (log LogCorrect sub)\<lparr>current_url := JStr ''https://q.io/next''\<rparr>"
  have "inspect_verdict verdict_next sub = (Inr Continue, st1)"
    by (simp add: verdict_next_def inspect_verdict_def get_def st1_def Let_def)
  then have "iteration no_json email secret (world_of quiz_page (Responded (Inr verdict_next))) (Suc n) st
          = (Continue, st1)"
    unfolding sub_def by (rule quiz_world_iteration[OF submit_answer_responded])
  then have "iteration no_json email secret (ten_quizzes n) (Suc n) st = (Continue, st1)"
    using n by (simp add: ten_quizzes_def)
  with Suc.prems(1) n have "run_loop no_json email secret ten_quizzes n st
            = run_loop no_json email secret ten_quizzes (Suc n) st1"
    by (simp add: run_loop_step max_attempts_def)
  moreover have "truthy (current_url st1)" by (simp add: st1_def)
  moreover have "m = 9 - Suc n" "Suc n \<le> 9" using Suc.hyps(2) n by simp_all
  ultimately show ?case using Suc.hyps(1)[of "Suc n" st1] by simp
qed

text \<open>
  Claim C2.  In a chain of ten quizzes whose tenth verdict is correct and names no
  next URL, the loop is left with \<open>attempt_count = 10\<close> and the status
  \<open>completed\<close>; the statement after the loop then sets the status to \<open>failed\<close> and
  the result to \<open>Max attempts reached\<close>.  The terminal state \<open>completed\<close> is left.
\<close>

theorem completed_then_failed:
  "fst (snd (run_loop no_json ''me@example.org'' ''s3cret'' ten_quizzes 0
               (initial_state ''https://q.io/start''))) = 10
   \<and> status (snd (snd (run_loop no_json ''me@example.org'' ''s3cret'' ten_quizzes 0
                         (initial_state ''https://q.io/start'')))) = Completed
   \<and> result (snd (snd (run_loop no_json ''me@example.org'' ''s3cret'' ten_quizzes 0
                         (initial_state ''https://q.io/start'')))) = Success
   \<and> status (snd (process_quiz_chain no_json ten_quizzes ''me@example.org'' ''s3cret''
                    ''https://q.io/start'')) = Failed
   \<and> result (snd (process_quiz_chain no_json ten_quizzes ''me@example.org'' ''s3cret''
                    ''https://q.io/start'')) = Error (JStr ''Max attempts reached'')"
proof -
  obtain st' where r: "run_loop no_json ''me@example.org'' ''s3cret'' ten_quizzes 0
                         (initial_state ''https://q.io/start'') = (None, 10, st')"
    and s: "status st' = Completed" "result st' = Success"
    using ten_quizzes_loop[OF truthy_initial, of 0 "''me@example.org''" "''s3cret''"] by auto
  have "process_quiz_chain no_json ten_quizzes ''me@example.org'' ''s3cret'' ''https://q.io/start''
          = (None, after_loop 10 st')"
    by (simp add: process_quiz_chain_def r)
  then show ?thesis
    by (simp add: r s after_loop_def max_attempts_def)
qed

text \<open>
  The bounds of the loop in a world where the first time check is late.
\<close>

theorem driver_bounds_witness:
  "elapsed late_world > time_budget
   \<and> truthy (current_url (initial_state ''https://q.io/start'')) \<and> (0::nat) < max_attempts
   \<and> fst (snd (run_loop no_json ''me@example.org'' ''s3cret'' always_late 0
                  (initial_state ''https://q.io/start''))) = 1
   \<and> status (snd (process_quiz_chain no_json always_late ''me@example.org'' ''s3cret''
                    ''https://q.io/start'')) = Failed
   \<and> result (snd (process_quiz_chain no_json always_late ''me@example.org'' ''s3cret''
                    ''https://q.io/start'')) = Error (JStr ''Time limit exceeded'')
   \<and> logs (snd (process_quiz_chain no_json always_late ''me@example.org'' ''s3cret''
                  ''https://q.io/start''))
       = [LogStarting ''https://q.io/start'', LogExceeded (JStr ''https://q.io/start'')]"
proof -
  have l: "elapsed late_world > time_budget"
    by (simp add: late_world_def time_budget_def)
  have m: "(0::nat) < max_attempts"
    by (simp add: max_attempts_def)
  have h: "truthy (current_url (initial_state ''https://q.io/start'')) \<and> 0 < max_attempts
           \<and> elapsed (always_late 0) > time_budget"
    using l m truthy_initial by (simp add: always_late_def)
  from driver_bounds[where ws = always_late and k = 0 and st = "initial_state ''https://q.io/start''"
      and json_loads = no_json and email = "''me@example.org''" and secret = "''s3cret''"] h
  obtain st' where r: "run_loop no_json ''me@example.org'' ''s3cret'' always_late 0
                         (initial_state ''https://q.io/start'') = (None, Suc 0, st')"
    and s: "status st' = Failed" "result st' = Error (JStr ''Time limit exceeded'')"
      "logs st' = logs (initial_state ''https://q.io/start'')
                    @ [LogExceeded (current_url (initial_state ''https://q.io/start''))]"
    by blast
  have "process_quiz_chain no_json always_late ''me@example.org'' ''s3cret'' ''https://q.io/start''
          = (None, st')"
    by (simp add: process_quiz_chain_def r after_loop_def max_attempts_def)
  with l m truthy_initial r s show ?thesis
    by (simp add: initial_state_def)
qed

text \<open>
  A first page without a submit URL.
\<close>

theorem missing_submit_url_witness:
  "truthy (current_url (initial_state ''https://q.io/start'')) \<and> (0::nat) < max_attempts
   \<and> \<not> elapsed (no_url_chain 0) > time_budget
   \<and> fetch_quiz_page (no_url_chain 0) (current_url (initial_state ''https://q.io/start''))
       = Inr page_without_url
   \<and> extract_submit_url page_without_url = None
   \<and> status (snd (process_quiz_chain no_json no_url_chain ''me@example.org'' ''s3cret''
                    ''https://q.io/start'')) = Failed
   \<and> result (snd (process_quiz_chain no_json no_url_chain ''me@example.org'' ''s3cret''
                    ''https://q.io/start'')) = Error (JStr ''Could not find submit URL'')
   \<and> logs (snd (process_quiz_chain no_json no_url_chain ''me@example.org'' ''s3cret''
                  ''https://q.io/start''))
       = [LogStarting ''https://q.io/start'', LogProcessing (JStr ''https://q.io/start'') 1,
          LogFetching, LogInstruction ''What is the total?'',
          LogNoSubmitUrl (JStr ''https://q.io/start'')]"
proof -
  have m: "(0::nat) < max_attempts"
    by (simp add: max_attempts_def)
  have b: "\<not> elapsed (no_url_chain 0) > time_budget"
    unfolding no_url_chain_def by (rule within_budget)
  have f: "fetch_quiz_page (no_url_chain 0) (current_url (initial_state ''https://q.io/start''))
       = Inr page_without_url"
    by (simp add: no_url_chain_def)
  from missing_submit_url[where ws = no_url_chain and n = 0
      and st = "initial_state ''https://q.io/start''" and html = page_without_url
      and json_loads = no_json and email = "''me@example.org''" and secret = "''s3cret''",
      OF truthy_initial m b f page_without_url_submit_url]
  obtain st' where r: "run_loop no_json ''me@example.org'' ''s3cret'' no_url_chain 0
                         (initial_state ''https://q.io/start'') = (None, Suc 0, st')"
    and s: "status st' = Failed" "result st' = Error (JStr ''Could not find submit URL'')"
      "logs st' = logs (initial_state ''https://q.io/start'') @
                [LogProcessing (current_url (initial_state ''https://q.io/start'')) (Suc 0), LogFetching,
                 LogInstruction (take 100 (extract_quiz_instruction page_without_url)),
                 LogNoSubmitUrl (current_url (initial_state ''https://q.io/start''))]"
    by blast
  have "process_quiz_chain no_json no_url_chain ''me@example.org'' ''s3cret'' ''https://q.io/start''
          = (None, st')"
    by (simp add: process_quiz_chain_def r after_loop_def max_attempts_def)
  with truthy_initial m b f page_without_url_submit_url s show ?thesis
    by (simp add: initial_state_def page_without_url_instruction)
qed

lemma chain_of_simps [simp]:
  "fetch_quiz_page (chain_of outcome k) u = Inr quiz_page"
  "requests_post (chain_of outcome k) su pl = outcome"
  by (simp_all add: chain_of_def)

lemma chain_of_budget: "\<not> elapsed (chain_of outcome k) > time_budget"
  unfolding chain_of_def by (rule within_budget)

lemma chain_of_solve:
  "solve_quiz (create_message (chain_of outcome k)) (extract_quiz_instruction quiz_page)
     = Inr ''The total is 37''"
  unfolding chain_of_def by (rule solve_quiz_world)

lemma quiz_page_parse:
  "parse_answer no_json ''The total is 37'' (extract_quiz_instruction quiz_page) = Inr (AInt 37)"
  by (simp only: quiz_page_instruction parse_total_37)

lemma chain_of_submit:
  "submit_answer (requests_post (chain_of (Responded (Inr v)) k)) u email secret q a = Inr v"
  unfolding chain_of_def by (rule submit_answer_responded)

lemma positive_max_attempts: "(0::nat) < max_attempts"
  by (simp add: max_attempts_def)

text \<open>
  A first verdict that is incorrect, with a reason and no next URL, and one with a
  next URL.
\<close>

theorem incorrect_verdict_witness:
  "\<not> truthy (get [(''correct'', JBool False), (''reason'', JStr ''Wrong answer'')] ''correct'')
   \<and> \<not> truthy (get [(''correct'', JBool False), (''reason'', JStr ''Wrong answer'')] ''url'')
   \<and> status (snd (process_quiz_chain no_json (chain_of (Responded (Inr verdict_wrong)))
                    ''me@example.org'' ''s3cret'' ''https://q.io/start'')) = Failed
   \<and> result (snd (process_quiz_chain no_json (chain_of (Responded (Inr verdict_wrong)))
                    ''me@example.org'' ''s3cret'' ''https://q.io/start'')) = Error (JStr ''Wrong answer'')
   \<and> truthy (get [(''correct'', JBool False), (''url'', JStr ''https://q.io/retry'')] ''url'')
   \<and> fst (iteration no_json ''me@example.org'' ''s3cret''
             (chain_of (Responded (Inr verdict_wrong_next)) 0) (Suc 0)
             (initial_state ''https://q.io/start'')) = Continue
   \<and> current_url (snd (iteration no_json ''me@example.org'' ''s3cret''
             (chain_of (Responded (Inr verdict_wrong_next)) 0) (Suc 0)
             (initial_state ''https://q.io/start''))) = JStr ''https://q.io/retry''"
proof -
  have c1: "\<not> truthy (get [(''correct'', JBool False), (''reason'', JStr ''Wrong answer'')] ''correct'')"
    and u1: "\<not> truthy (get [(''correct'', JBool False), (''reason'', JStr ''Wrong answer'')] ''url'')"
    and c2: "\<not> truthy (get [(''correct'', JBool False), (''url'', JStr ''https://q.io/retry'')] ''correct'')"
    and u2: "truthy (get [(''correct'', JBool False), (''url'', JStr ''https://q.io/retry'')] ''url'')"
    and g2: "get [(''correct'', JBool False), (''url'', JStr ''https://q.io/retry'')] ''url''
              = JStr ''https://q.io/retry''"
    by (simp_all add: get_def)
  have s1: "submit_answer (requests_post (chain_of (Responded (Inr verdict_wrong)) 0))
              ''https://q.io/submit'' ''me@example.org'' ''s3cret''
              (current_url (initial_state ''https://q.io/start'')) (AInt 37)
            = Inr (JObj [(''correct'', JBool False), (''reason'', JStr ''Wrong answer'')])"
    unfolding verdict_wrong_def[symmetric] by (rule chain_of_submit)
  have s2: "submit_answer (requests_post (chain_of (Responded (Inr verdict_wrong_next)) 0))
              ''https://q.io/submit'' ''me@example.org'' ''s3cret''
              (current_url (initial_state ''https://q.io/start'')) (AInt 37)
            = Inr (JObj [(''correct'', JBool False), (''url'', JStr ''https://q.io/retry'')])"
    unfolding verdict_wrong_next_def[symmetric] by (rule chain_of_submit)
  have ne: "''https://q.io/submit'' \<noteq> []" by simp
  note a = incorrect_verdict[where ws = "chain_of (Responded (Inr verdict_wrong))" and n = 0
      and st = "initial_state ''https://q.io/start''" and html = quiz_page
      and u = "''https://q.io/submit''" and solution = "''The total is 37''" and ans = "AInt 37"
      and json_loads = no_json and email = "''me@example.org''" and secret = "''s3cret''"
      and d = "[(''correct'', JBool False), (''reason'', JStr ''Wrong answer'')]",
      OF truthy_initial positive_max_attempts chain_of_budget chain_of_simps(1)
        quiz_page_submit_url ne chain_of_solve quiz_page_parse s1 c1]
  note b = incorrect_verdict[where ws = "chain_of (Responded (Inr verdict_wrong_next))" and n = 0
      and st = "initial_state ''https://q.io/start''" and html = quiz_page
      and u = "''https://q.io/submit''" and solution = "''The total is 37''" and ans = "AInt 37"
      and json_loads = no_json and email = "''me@example.org''" and secret = "''s3cret''"
      and d = "[(''correct'', JBool False), (''url'', JStr ''https://q.io/retry'')]",
      OF truthy_initial positive_max_attempts chain_of_budget chain_of_simps(1)
        quiz_page_submit_url ne chain_of_solve quiz_page_parse s2 c2]
  from a u1 obtain st' where r: "run_loop no_json ''me@example.org'' ''s3cret''
        (chain_of (Responded (Inr verdict_wrong))) 0 (initial_state ''https://q.io/start'')
        = (None, Suc 0, st')"
    and s: "status st' = Failed" "result st' = Error (JStr ''Wrong answer'')"
    by auto
  have p: "process_quiz_chain no_json (chain_of (Responded (Inr verdict_wrong)))
          ''me@example.org'' ''s3cret'' ''https://q.io/start'' = (None, st')"
    by (simp add: process_quiz_chain_def r after_loop_def max_attempts_def)
  from b u2 obtain st2 where i: "iteration no_json ''me@example.org'' ''s3cret''
             (chain_of (Responded (Inr verdict_wrong_next)) 0) (Suc 0)
             (initial_state ''https://q.io/start'') = (Continue, st2)"
    and cu: "current_url st2 = get [(''correct'', JBool False), (''url'', JStr ''https://q.io/retry'')] ''url''"
    by blast
  from c1 u1 u2 p s i cu g2 show ?thesis by simp
qed

text \<open>
  The theorem of claim C7 at a timeout of the request and at a body that is not JSON.
\<close>

theorem transport_failure_verdict_witness:
  "is_Exception (exc_type (PyExc Timeout ''Read timed out''))
   \<and> is_Exception (exc_type (PyExc JSONDecodeError ''Expecting value''))
   \<and> submit_answer (requests_post (world_of quiz_page (PostRaises (PyExc Timeout ''Read timed out''))))
        ''https://q.io/submit'' ''me@example.org'' ''s3cret''
        (current_url (initial_state ''https://q.io/start'')) (AInt 37)
       = Inr (JObj [(''correct'', JBool False), (''reason'', JStr ''Read timed out'')])
   \<and> submit_answer
        (requests_post (world_of quiz_page (Responded (Inl (PyExc JSONDecodeError ''Expecting value'')))))
        ''https://q.io/submit'' ''me@example.org'' ''s3cret''
        (current_url (initial_state ''https://q.io/start'')) (AInt 37)
       = Inr (JObj [(''correct'', JBool False), (''reason'', JStr ''Expecting value'')])
   \<and> fst (answer_and_submit no_json ''me@example.org'' ''s3cret''
             (world_of quiz_page (PostRaises (PyExc Timeout ''Read timed out'')))
             ''What is the total?'' ''https://q.io/submit'' (initial_state ''https://q.io/start''))
       = Inr Break
   \<and> result (snd (answer_and_submit no_json ''me@example.org'' ''s3cret''
             (world_of quiz_page (PostRaises (PyExc Timeout ''Read timed out'')))
             ''What is the total?'' ''https://q.io/submit'' (initial_state ''https://q.io/start'')))
       = Error (JStr ''Read timed out'')"
proof -
  have e1: "is_Exception (exc_type (PyExc Timeout ''Read timed out''))"
    and e2: "is_Exception (exc_type (PyExc JSONDecodeError ''Expecting value''))"
    by simp_all
  have p1: "requests_post (world_of quiz_page (PostRaises (PyExc Timeout ''Read timed out'')))
              ''https://q.io/submit''
              \<lparr>p_email = ''me@example.org'', p_secret = ''s3cret'',
                 p_url = current_url (initial_state ''https://q.io/start''), p_answer = AInt 37\<rparr>
            = PostRaises (PyExc Timeout ''Read timed out'')
          \<or> requests_post (world_of quiz_page (PostRaises (PyExc Timeout ''Read timed out'')))
              ''https://q.io/submit''
              \<lparr>p_email = ''me@example.org'', p_secret = ''s3cret'',
                 p_url = current_url (initial_state ''https://q.io/start''), p_answer = AInt 37\<rparr>
            = Responded (Inl (PyExc Timeout ''Read timed out''))"
    by simp
  have p2: "requests_post
              (world_of quiz_page (Responded (Inl (PyExc JSONDecodeError ''Expecting value''))))
              ''https://q.io/submit''
              \<lparr>p_email = ''me@example.org'', p_secret = ''s3cret'',
                 p_url = current_url (initial_state ''https://q.io/start''), p_answer = AInt 37\<rparr>
            = PostRaises (PyExc JSONDecodeError ''Expecting value'')
          \<or> requests_post
              (world_of quiz_page (Responded (Inl (PyExc JSONDecodeError ''Expecting value''))))
              ''https://q.io/submit''
              \<lparr>p_email = ''me@example.org'', p_secret = ''s3cret'',
                 p_url = current_url (initial_state ''https://q.io/start''), p_answer = AInt 37\<rparr>
            = Responded (Inl (PyExc JSONDecodeError ''Expecting value''))"
    by simp
  note a = transport_failure_verdict[OF e1 p1, where instruction = "''What is the total?''"
      and solution = "''The total is 37''" and json_loads = no_json]
  note b = transport_failure_verdict[OF e2 p2, where instruction = "''What is the total?''"
      and solution = "''The total is 37''" and json_loads = no_json]
  have sq: "solve_quiz (create_message (world_of quiz_page (PostRaises (PyExc Timeout ''Read timed out''))))
              ''What is the total?'' = Inr ''The total is 37''"
    by (rule solve_quiz_world)
  from a sq parse_total_37 obtain st' where
    r: "answer_and_submit no_json ''me@example.org'' ''s3cret''
             (world_of quiz_page (PostRaises (PyExc Timeout ''Read timed out'')))
             ''What is the total?'' ''https://q.io/submit'' (initial_state ''https://q.io/start'')
          = (Inr Break, st')"
    and s: "result st' = Error (JStr (exc_msg (PyExc Timeout ''Read timed out'')))"
    by blast
  from a b e1 e2 r s show ?thesis by simp
qed

subsection \<open>The tenth attempt\<close>

text \<open>Nine verdicts that are correct and name a next URL take the loop to its tenth iteration.\<close>

lemma nine_continue:
  assumes "\<forall>k<9. ws k = world_of quiz_page (Responded (Inr verdict_next))"
    and "truthy (current_url st)" and "n \<le> 9"
  shows "\<exists>st9. run_loop no_json email secret ws n st = run_loop no_json email secret ws 9 st9
           \<and> truthy (current_url st9)"
  using assms(2,3)
proof (induction "9 - n" arbitrary: n st)
  case 0
  then have "n = 9" by simp
  with "0.prems"(1) show ?case by blast
next
  case (Suc m)
  then have n: "n < 9" by simp
  define sub where "sub = after_submission st (Suc n) ''What is the total?'' ''The total is 37'' (AInt 37) verdict_next"
  define st1 where "st1 = (log LogCorrect sub)\<lparr>current_url := JStr ''https://q.io/next''\<rparr>"
  have "inspect_verdict verdict_next sub = (Inr Continue, st1)"
    by (simp add: verdict_next_def inspect_verdict_def get_def st1_def Let_def)
  then have "iteration no_json email secret (world_of quiz_page (Responded (Inr verdict_next))) (Suc n) st
          = (Continue, st1)"
    unfolding sub_def by (rule quiz_world_iteration[OF submit_answer_responded])
  then have "iteration no_json email secret (ws n) (Suc n) st = (Continue, st1)"
    using n assms(1) by simp
  with Suc.prems(1) n have "run_loop no_json email secret ws n st
            = run_loop no_json email secret ws (Suc n) st1"
    by (simp add: run_loop_step max_attempts_def)
  moreover have "truthy (current_url st1)" by (simp add: st1_def)
  moreover have "m = 9 - Suc n" "Suc n \<le> 9" using Suc.hyps(2) n by simp_all
  ultimately show ?case using Suc.hyps(1)[of "Suc n" st1] by simp
qed

lemma nine_lt_max_attempts: "(9::nat) < max_attempts"
  by (simp add: max_attempts_def)

text \<open>The statement after the loop, when the loop was left in its tenth iteration.\<close>

lemma after_loop_tenth:
  "status (after_loop 10 st) = Failed" "result (after_loop 10 st) = Error (JStr ''Max attempts reached'')"
  by (simp_all add: after_loop_def max_attempts_def)

lemma process_quiz_chain_tenth:
  assumes "run_loop json_loads email secret ws 0 (initial_state u) = (None, 10, st')"
  shows "status (snd (process_quiz_chain json_loads ws email secret u)) = Failed"
    and "result (snd (process_quiz_chain json_loads ws email secret u))
           = Error (JStr ''Max attempts reached'')"
  by (simp_all add: process_quiz_chain_def assms after_loop_tenth)

text \<open>
  Claim C3.  The time box and the attempt cap are both enforced: the loop below is
  left in its tenth iteration, whose time check finds more than three minutes
  elapsed, with \<open>attempt_count = 10\<close>, the status \<open>failed\<close> and the result
  \<open>Time limit exceeded\<close>.  But the task does not end with the result of the bound that
  ended it: the statement after the loop sees \<open>attempt_count >= max_attempts\<close> and
  replaces the result by \<open>Max attempts reached\<close>.
\<close>

theorem tenth_attempt_late:
  "fst (snd (run_loop no_json ''me@example.org'' ''s3cret'' tenth_late 0
               (initial_state ''https://q.io/start''))) = 10
   \<and> status (snd (snd (run_loop no_json ''me@example.org'' ''s3cret'' tenth_late 0
                         (initial_state ''https://q.io/start'')))) = Failed
   \<and> result (snd (snd (run_loop no_json ''me@example.org'' ''s3cret'' tenth_late 0
                         (initial_state ''https://q.io/start''))))
       = Error (JStr ''Time limit exceeded'')
   \<and> status (snd (process_quiz_chain no_json tenth_late ''me@example.org'' ''s3cret''
                    ''https://q.io/start'')) = Failed
   \<and> result (snd (process_quiz_chain no_json tenth_late ''me@example.org'' ''s3cret''
                    ''https://q.io/start'')) = Error (JStr ''Max attempts reached'')"
proof -
  have w: "\<forall>k<9. tenth_late k = world_of quiz_page (Responded (Inr verdict_next))"
    by (simp add: tenth_late_def)
  from nine_continue[OF w truthy_initial, of 0 "''me@example.org''" "''s3cret''"]
  obtain st9 where c: "run_loop no_json ''me@example.org'' ''s3cret'' tenth_late 0
                         (initial_state ''https://q.io/start'')
                       = run_loop no_json ''me@example.org'' ''s3cret'' tenth_late 9 st9"
    and t: "truthy (current_url st9)"
    by auto
  define st' where "st' = fail (JStr ''Time limit exceeded'') (log (LogExceeded (current_url st9)) st9)"
  have l: "elapsed (tenth_late 9) > time_budget"
    by (simp add: tenth_late_def late_world_def time_budget_def)
  then have "iteration no_json ''me@example.org'' ''s3cret'' (tenth_late 9) (Suc 9) st9 = (Break, st')"
    unfolding st'_def by (rule iteration_over_budget)
  with t nine_lt_max_attempts
  have "run_loop no_json ''me@example.org'' ''s3cret'' tenth_late 9 st9 = (None, Suc 9, st')"
    by (simp add: run_loop_step)
  with c have r: "run_loop no_json ''me@example.org'' ''s3cret'' tenth_late 0
                    (initial_state ''https://q.io/start'') = (None, 10, st')"
    by simp
  have s: "status st' = Failed" "result st' = Error (JStr ''Time limit exceeded'')"
    by (simp_all add: st'_def)
  from process_quiz_chain_tenth[OF r] r s show ?thesis by simp
qed

text \<open>
  Claim C5.  In a chain whose tenth verdict is incorrect, has the reason
  \<open>Wrong answer\<close> and names no next URL, the loop is left with \<open>attempt_count = 10\<close>,
  the status \<open>failed\<close> and the verdict's reason as the result.  The task does not end
  with that reason: the statement after the loop sees \<open>attempt_count >= max_attempts\<close>
  and replaces the result by \<open>Max attempts reached\<close>.
\<close>

theorem tenth_attempt_wrong:
  "\<not> truthy (get [(''correct'', JBool False), (''reason'', JStr ''Wrong answer'')] ''correct'')
   \<and> \<not> truthy (get [(''correct'', JBool False), (''reason'', JStr ''Wrong answer'')] ''url'')
   \<and> fst (snd (run_loop no_json ''me@example.org'' ''s3cret'' tenth_wrong 0
               (initial_state ''https://q.io/start''))) = 10
   \<and> status (snd (snd (run_loop no_json ''me@example.org'' ''s3cret'' tenth_wrong 0
                         (initial_state ''https://q.io/start'')))) = Failed
   \<and> result (snd (snd (run_loop no_json ''me@example.org'' ''s3cret'' tenth_wrong 0
                         (initial_state ''https://q.io/start''))))
       = Error (JStr ''Wrong answer'')
   \<and> status (snd (process_quiz_chain no_json tenth_wrong ''me@example.org'' ''s3cret''
                    ''https://q.io/start'')) = Failed
   \<and> result (snd (process_quiz_chain no_json tenth_wrong ''me@example.org'' ''s3cret''
                    ''https://q.io/start'')) = Error (JStr ''Max attempts reached'')"
proof -
  have g: "\<not> truthy (get [(''correct'', JBool False), (''reason'', JStr ''Wrong answer'')] ''correct'')"
    "\<not> truthy (get [(''correct'', JBool False), (''reason'', JStr ''Wrong answer'')] ''url'')"
    by (simp_all add: get_def)
  have w: "\<forall>k<9. tenth_wrong k = world_of quiz_page (Responded (Inr verdict_next))"
    by (simp add: tenth_wrong_def)
  from nine_continue[OF w truthy_initial, of 0 "''me@example.org''" "''s3cret''"]
  obtain st9 where c: "run_loop no_json ''me@example.org'' ''s3cret'' tenth_wrong 0
                         (initial_state ''https://q.io/start'')
                       = run_loop no_json ''me@example.org'' ''s3cret'' tenth_wrong 9 st9"
    and t: "truthy (current_url st9)"
    by auto
  define sub where "sub = after_submission st9 (Suc 9) ''What is the total?'' ''The total is 37''
                            (AInt 37) verdict_wrong"
  define st' where "st' = fail (JStr ''Wrong answer'') (log (LogNoNextUrl (JStr ''Wrong answer'')) sub)"
  have "inspect_verdict verdict_wrong sub = (Inr Break, st')"
    by (simp add: verdict_wrong_def inspect_verdict_def get_def get_default_def st'_def Let_def)
  then have "iteration no_json ''me@example.org'' ''s3cret''
               (world_of quiz_page (Responded (Inr verdict_wrong))) (Suc 9) st9 = (Break, st')"
    unfolding sub_def by (rule quiz_world_iteration[OF submit_answer_responded])
  then have "iteration no_json ''me@example.org'' ''s3cret'' (tenth_wrong 9) (Suc 9) st9 = (Break, st')"
    by (simp add: tenth_wrong_def)
  with t nine_lt_max_attempts
  have "run_loop no_json ''me@example.org'' ''s3cret'' tenth_wrong 9 st9 = (None, Suc 9, st')"
    by (simp add: run_loop_step)
  with c have r: "run_loop no_json ''me@example.org'' ''s3cret'' tenth_wrong 0
                    (initial_state ''https://q.io/start'') = (None, 10, st')"
    by simp
  have s: "status st' = Failed" "result st' = Error (JStr ''Wrong answer'')"
    by (simp_all add: st'_def)
  from process_quiz_chain_tenth[OF r] r s g show ?thesis by simp
qed

text \<open>
  Claim C8.  In a chain whose tenth page has no submit URL, the loop is left with
  \<open>attempt_count = 10\<close>, the status \<open>failed\<close> and the result
  \<open>Could not find submit URL\<close>.  The task does not end with that result: the
  statement after the loop sees \<open>attempt_count >= max_attempts\<close> and replaces it by
  \<open>Max attempts reached\<close>.
\<close>

theorem tenth_attempt_without_url:
  "extract_submit_url page_without_url = None
   \<and> fst (snd (run_loop no_json ''me@example.org'' ''s3cret'' tenth_without_url 0
               (initial_state ''https://q.io/start''))) = 10
   \<and> status (snd (snd (run_loop no_json ''me@example.org'' ''s3cret'' tenth_without_url 0
                         (initial_state ''https://q.io/start'')))) = Failed
   \<and> result (snd (snd (run_loop no_json ''me@example.org'' ''s3cret'' tenth_without_url 0
                         (initial_state ''https://q.io/start''))))
       = Error (JStr ''Could not find submit URL'')
   \<and> status (snd (process_quiz_chain no_json tenth_without_url ''me@example.org'' ''s3cret''
                    ''https://q.io/start'')) = Failed
   \<and> result (snd (process_quiz_chain no_json tenth_without_url ''me@example.org'' ''s3cret''
                    ''https://q.io/start'')) = Error (JStr ''Max attempts reached'')"
proof -
  have w: "\<forall>k<9. tenth_without_url k = world_of quiz_page (Responded (Inr verdict_next))"
    by (simp add: tenth_without_url_def)
  from nine_continue[OF w truthy_initial, of 0 "''me@example.org''" "''s3cret''"]
  obtain st9 where c: "run_loop no_json ''me@example.org'' ''s3cret'' tenth_without_url 0
                         (initial_state ''https://q.io/start'')
                       = run_loop no_json ''me@example.org'' ''s3cret'' tenth_without_url 9 st9"
    and t: "truthy (current_url st9)"
    by auto
  define st' where "st' = no_submit_url (log (LogInstruction (take 100 (extract_quiz_instruction page_without_url)))
                             (log LogFetching (log (LogProcessing (current_url st9) (Suc 9)) st9)))"
  have e: "tenth_without_url 9 = world_of page_without_url (Responded (Inr verdict_done))"
    by (simp add: tenth_without_url_def)
  have f: "fetch_quiz_page (tenth_without_url 9)
             (current_url (log (LogProcessing (current_url st9) (Suc 9)) st9)) = Inr page_without_url"
    unfolding e by simp
  have b: "\<not> elapsed (tenth_without_url 9) > time_budget"
    unfolding e by (rule within_budget)
  have "attempt no_json ''me@example.org'' ''s3cret'' (tenth_without_url 9)
          (log (LogProcessing (current_url st9) (Suc 9)) st9) = (Inr Break, st')"
    unfolding st'_def using f page_without_url_submit_url by (rule attempt_no_submit_url)
  with b have "iteration no_json ''me@example.org'' ''s3cret'' (tenth_without_url 9) (Suc 9) st9
                 = (Break, st')"
    by (rule iteration_attempt)
  with t nine_lt_max_attempts
  have "run_loop no_json ''me@example.org'' ''s3cret'' tenth_without_url 9 st9 = (None, Suc 9, st')"
    by (simp add: run_loop_step)
  with c have r: "run_loop no_json ''me@example.org'' ''s3cret'' tenth_without_url 0
                    (initial_state ''https://q.io/start'') = (None, 10, st')"
    by simp
  have s: "status st' = Failed" "result st' = Error (JStr ''Could not find submit URL'')"
    by (simp_all add: st'_def no_submit_url_def)
  from process_quiz_chain_tenth[OF r] r s page_without_url_submit_url show ?thesis by simp
qed

end
